theory Spec2Isabelle
  imports Complex_Main "HOL-Library.Multiset"
begin

section \<open>Common Python notions\<close>

text \<open>
  Exceptions of the source are values: every function that can raise returns
  \<open>error + 'a\<close>, with \<open>Inl\<close> carrying the exception.
\<close>

datatype error =
    IndexError
  | ValueError
  | AssertionError
  | AttributeError
  | ZeroDivisionError
  | KeyError
  | TypeError
  | RuntimeError
  | FileNotFoundError

text \<open>A Python \<open>str\<close> is the list of its code points; \<open>len\<close> counts them.\<close>

type_synonym pystr = "nat list"

text \<open>
  Python slicing \<open>xs[a:b]\<close> for arbitrary integer bounds: a negative bound counts from
  the end, and every bound is clipped to the range of the list.
\<close>

definition norm_idx :: "int \<Rightarrow> nat \<Rightarrow> nat" where
  "norm_idx k n = (if k < 0 then nat (max 0 (k + int n)) else min (nat k) n)"

definition py_slice :: "'a list \<Rightarrow> int \<Rightarrow> int \<Rightarrow> 'a list" where
  "py_slice xs a b =
     (let lo = norm_idx a (length xs); hi = norm_idx b (length xs)
      in take (hi - lo) (drop lo xs))"

section \<open>CustomSampler\<close>

record sampler =
  optimize :: bool
  shuffle :: bool
  batchsize :: int
  optimized_idxs :: "nat list list"
  idxs :: "nat list"

subsection \<open>Construction: bucketing by transcript length\<close>

text \<open>
  The loop of \<open>__init__\<close> over \<open>enumerate(lengths_idxs_pairs)\<close>. The state is
  \<open>(optimized_idxs, len_idxs, min_len, max_len)\<close>; \<open>n\<close> is
  \<open>len(lengths_idxs_pairs)\<close> and \<open>j\<close> the position of the head of the list.
\<close>

type_synonym bucket_state = "nat list list \<times> nat list \<times> int \<times> int"

fun bucket_loop :: "int \<Rightarrow> nat \<Rightarrow> nat \<Rightarrow> (int \<times> nat) list \<Rightarrow> bucket_state \<Rightarrow> bucket_state" where
  "bucket_loop len_diff n j [] st = st"
| "bucket_loop len_diff n j ((len, idx) # rest) (opt, len_idxs, min_len, max_len) =
     (if min_len \<le> len \<and> len < max_len then
        (let len_idxs' = len_idxs @ [idx];
             opt' = (if j + 1 = n \<and> len_idxs' \<noteq> [] then opt @ [len_idxs'] else opt)
         in bucket_loop len_diff n (j + 1) rest (opt', len_idxs', min_len, max_len))
      else
        bucket_loop len_diff n (j + 1) rest (opt @ [len_idxs], [idx], len, len + len_diff))"

definition text_lengths :: "(pystr \<times> pystr) list \<Rightarrow> int list" where
  "text_lengths data = map (\<lambda>elem. int (length (snd elem))) data"

text \<open>\<open>sorted(..., key=lambda elem: elem[0])\<close> is a stable sort on the first component.\<close>

definition lengths_idxs_pairs :: "(pystr \<times> pystr) list \<Rightarrow> (int \<times> nat) list" where
  "lengths_idxs_pairs data = sort_key fst (zip (text_lengths data) [0..<length data])"

text \<open>
  The bucketing branch of \<open>__init__\<close>: \<open>lengths_idxs_pairs[0][0]\<close> raises on an empty
  dataset; otherwise the result is \<open>self.optimized_idxs\<close> after the loop.
\<close>

definition make_buckets :: "(pystr \<times> pystr) list \<Rightarrow> int \<Rightarrow> error + nat list list" where
  "make_buckets data len_diff =
     (case lengths_idxs_pairs data of
        [] \<Rightarrow> Inl IndexError
      | (min_length, _) # _ \<Rightarrow>
          Inr (fst (bucket_loop len_diff (length (lengths_idxs_pairs data)) 0
                 (lengths_idxs_pairs data) ([], [], min_length, min_length + len_diff))))"

subsection \<open>Reshuffle\<close>

text \<open>
  \<open>torch.randperm\<close> is the random source. It is a parameter \<open>rp\<close>: given \<open>n\<close> and the
  generator state it returns a list and the next generator state. Its contract, a
  permutation of \<open>0..n-1\<close>, is \<open>randperm_ok\<close>.
\<close>

type_synonym 'g randperm = "nat \<Rightarrow> 'g \<Rightarrow> nat list \<times> 'g"

definition randperm_ok :: "'g randperm \<Rightarrow> bool" where
  "randperm_ok rp = (\<forall>n g. mset (fst (rp n g)) = mset [0..<n])"

definition torch_shuffle :: "'g randperm \<Rightarrow> 'a list \<Rightarrow> 'g \<Rightarrow> 'a list \<times> 'g" where
  "torch_shuffle rp iterable g =
     (let (p, g') = rp (length iterable) g in (map (\<lambda>i. iterable ! i) p, g'))"

fun shuffle_each :: "'g randperm \<Rightarrow> 'a list list \<Rightarrow> 'g \<Rightarrow> 'a list list \<times> 'g" where
  "shuffle_each rp [] g = ([], g)"
| "shuffle_each rp (elem # rest) g =
     (let (elem', g') = torch_shuffle rp elem g;
          (rest', g'') = shuffle_each rp rest g'
      in (elem' # rest', g''))"

text \<open>
  With bucketing: the buckets shuffled inside, then their order shuffled, then
  flattened (\<open>list(chain(*idxs))\<close>, the first one in \<open>reshuffle\<close>).
\<close>

definition bucket_flat :: "'g randperm \<Rightarrow> sampler \<Rightarrow> 'g \<Rightarrow> nat list \<times> 'g" where
  "bucket_flat rp s g =
     (let (bks, g1) = shuffle_each rp (optimized_idxs s) g;
          (bks', g2) = torch_shuffle rp bks g1
      in (concat bks', g2))"

definition reshuffle :: "'g randperm \<Rightarrow> sampler \<Rightarrow> 'g \<Rightarrow> error + sampler \<times> 'g" where
  "reshuffle rp s g =
     (if optimize s then
        (let (flat, g2) = bucket_flat rp s g in
         if batchsize s = 0 then Inl ZeroDivisionError
         else
           (let batches = int (length flat) div batchsize s;
                chunks = map (\<lambda>i. py_slice flat (int i * batchsize s) ((int i + 1) * batchsize s))
                           [0..<nat batches];
                (chunks', g3) = torch_shuffle rp chunks g2
            in Inr (s\<lparr>idxs := concat chunks'\<rparr>, g3)))
      else
        (let (xs, g1) = torch_shuffle rp (idxs s) g in Inr (s\<lparr>idxs := xs\<rparr>, g1)))"

text \<open>\<open>CustomSampler.__init__\<close>.\<close>

definition sampler_init ::
  "'g randperm \<Rightarrow> (pystr \<times> pystr) list \<Rightarrow> int \<Rightarrow> bool \<Rightarrow> bool \<Rightarrow> int \<Rightarrow> 'g \<Rightarrow> error + sampler \<times> 'g" where
  "sampler_init rp data bs shuf opt len_diff g =
     (let s0 = \<lparr>optimize = opt, shuffle = shuf, batchsize = bs, optimized_idxs = [],
                idxs = [0..<length data]\<rparr>
      in case (if opt then
                 (case make_buckets data len_diff of
                    Inl e \<Rightarrow> Inl e
                  | Inr bks \<Rightarrow> Inr (s0\<lparr>optimized_idxs := bks, idxs := concat bks\<rparr>))
               else Inr s0) of
           Inl e \<Rightarrow> Inl e
         | Inr s1 \<Rightarrow> if shuf then reshuffle rp s1 g else Inr (s1, g))"

section \<open>Arrays\<close>

text \<open>
  A two-dimensional array (numpy array or torch tensor) with its shape and its rows.
  The shape is kept apart from the rows because an array may have no row and still a
  second dimension. Sample values are reals: the code only copies them. The
  normalisation of the audio and the mel transform are parameters of the model, and the
  rounding of a conversion to single precision is not represented.
\<close>

record tensor2 =
  dim0 :: nat
  dim1 :: nat
  elems :: "real list list"

definition np_zeros :: "nat \<Rightarrow> nat \<Rightarrow> tensor2" where
  "np_zeros r c = \<lparr>dim0 = r, dim1 = c, elems = replicate r (replicate c 0)\<rparr>"

definition shape :: "tensor2 \<Rightarrow> nat \<times> nat" where
  "shape t = (dim0 t, dim1 t)"

section \<open>TextMelLoader\<close>

text \<open>
  A stress or phonemes setting of the hyper-parameters: a fixed boolean or a probability.
\<close>

datatype flag = FBool bool | FProb real

fun truthy :: "flag \<Rightarrow> bool" where
  "truthy (FBool b) = b"
| "truthy (FProb p) = (p \<noteq> 0)"

text \<open>The line printed by \<open>get_data\<close>: audio name, expected shape, shape got.\<close>

datatype diag = ShapeProblem pystr "nat \<times> nat" "nat \<times> nat"

text \<open>What a call can change outside the object: standard output and the random generator.\<close>

record 'g world =
  stdout :: "diag list"
  gen :: 'g

text \<open>
  The collaborators of the loader, which are not part of this module: the text handler
  and \<open>prob2bool\<close> of the text library, path functions, the wav reader, numpy's loader and
  float arithmetic, librosa's silence splitter and the mel transform. Arrays in the
  alignment store and in the store of precomputed features are two-dimensional.
\<close>

record 'g env =
  prob2bool :: "flag \<Rightarrow> 'g \<Rightarrow> bool \<times> 'g"
  text_to_sequence ::
    "pystr \<Rightarrow> pystr list \<Rightarrow> flag \<Rightarrow> flag \<Rightarrow> bool \<Rightarrow> bool \<Rightarrow> 'g \<Rightarrow> (error + int list) \<times> 'g"
  id_to_symbol :: "int \<rightharpoonup> pystr"
  path_join :: "pystr \<Rightarrow> pystr \<Rightarrow> pystr"
  splitext :: "pystr \<Rightarrow> pystr \<times> pystr"
  wav_read :: "pystr \<Rightarrow> error + int \<times> real list"
  np_load :: "pystr \<Rightarrow> error + tensor2"
  np_float32_div :: "real list \<Rightarrow> real \<Rightarrow> real list"
  librosa_split :: "real list \<Rightarrow> real \<Rightarrow> int \<Rightarrow> int \<Rightarrow> (int \<times> int) list"
  mel_spectrogram :: "real list \<Rightarrow> error + tensor2"

text \<open>The fields of a constructed \<open>TextMelLoader\<close>.\<close>

record loader =
  data :: "(pystr \<times> pystr) list"
  audio_path :: pystr
  alignment_path :: "pystr \<rightharpoonup> pystr"
  add_silence :: bool
  hop_length :: int
  ft_window :: int
  trim_silence :: bool
  trim_top_db :: real
  text_cleaners :: "pystr list"
  max_wav_value :: real
  sampling_rate :: int
  load_mel_from_disk :: bool
  n_mel_channels :: nat
  get_alignments :: bool
  word_level_prob :: bool
  stress :: flag
  phonemes :: flag
  dict_prime :: bool
  use_mmi :: bool
  ctc_symbol_to_id :: "(pystr \<rightharpoonup> int) option"

definition py :: "string \<Rightarrow> pystr" where
  "py s = map of_char s"

text \<open>
  \<open>_get_sress_phonemes\<close>: \<open>phonemes\<close> is resolved before \<open>stress\<close>; both settings are
  \<open>int\<close> or \<open>float\<close> for \<open>isinstance\<close> (a \<open>bool\<close> is an \<open>int\<close>), so both go through
  \<open>prob2bool\<close> unless the word-level mode is on. The result is \<open>(stress, phonemes)\<close>.
\<close>

definition get_sress_phonemes :: "'g env \<Rightarrow> loader \<Rightarrow> 'g world \<Rightarrow> (flag \<times> flag) \<times> 'g world" where
  "get_sress_phonemes env L w =
     (if \<not> word_level_prob L then
        (let (ph, g1) = prob2bool env (phonemes L) (gen w);
             (st, g2) = prob2bool env (stress L) g1
         in ((FBool st, FBool ph), w\<lparr>gen := g2\<rparr>))
      else ((stress L, phonemes L), w))"

text \<open>
  \<open>torch.IntTensor\<close> of a list of Python integers: an entry that does not fit 32 bits
  raises.
\<close>

definition int_tensor :: "int list \<Rightarrow> error + int list" where
  "int_tensor xs =
     (if list_all (\<lambda>x. - (2 ^ 31) \<le> x \<and> x < 2 ^ 31) xs then Inr xs else Inl RuntimeError)"

definition get_text ::
  "'g env \<Rightarrow> loader \<Rightarrow> pystr \<Rightarrow> flag \<Rightarrow> flag \<Rightarrow> 'g world \<Rightarrow> (error + int list) \<times> 'g world" where
  "get_text env L txt st ph w =
     (let stress_always = \<not> get_alignments L;
          (r, g') = text_to_sequence env txt (text_cleaners L) st ph (dict_prime L) stress_always (gen w)
      in ((case r of Inl e \<Rightarrow> Inl e | Inr ids \<Rightarrow> int_tensor ids), w\<lparr>gen := g'\<rparr>))"

text \<open>
  \<open>get_audio\<close>. The result is the one row of the \<open>1 \<times> T\<close> tensor returned.
  \<open>np.concatenate\<close> raises on an empty list of pieces and \<open>np.zeros\<close> on a negative size.
\<close>

definition get_audio :: "'g env \<Rightarrow> loader \<Rightarrow> pystr \<Rightarrow> bool \<Rightarrow> bool \<Rightarrow> error + real list" where
  "get_audio env L filename trim add =
     (let filepath = path_join env (audio_path L) filename in
      case wav_read env filepath of
        Inl e \<Rightarrow> Inl e
      | Inr (sample_rate, audio0) \<Rightarrow>
          (let audio = np_float32_div env audio0 (max_wav_value L) in
           if sample_rate \<noteq> sampling_rate L then Inl ValueError
           else
             (case (if trim then
                      (let idxs = librosa_split env audio (trim_top_db L) (ft_window L) (hop_length L)
                       in if idxs = [] then Inl ValueError
                          else Inr (concat (map (\<lambda>(start, end). py_slice audio start end) idxs)))
                    else Inr audio) of
                Inl e \<Rightarrow> Inl e
              | Inr audio1 \<Rightarrow>
                  if add then
                    (if 5 * hop_length L < 0 then Inl ValueError
                     else Inr (audio1 @ replicate (nat (5 * hop_length L)) 0))
                  else Inr audio1)))"

text \<open>
  \<open>get_mel\<close>. The mel transform takes the audio row and gives the \<open>n_mel \<times> time\<close>
  array (the batch dimension added by \<open>get_audio\<close> is the one \<open>torch.squeeze\<close> removes).
\<close>

definition get_mel :: "'g env \<Rightarrow> loader \<Rightarrow> pystr \<Rightarrow> error + tensor2" where
  "get_mel env L filename =
     (if \<not> load_mel_from_disk L then
        (case get_audio env L filename (trim_silence L) (add_silence L) of
           Inl e \<Rightarrow> Inl e
         | Inr audio \<Rightarrow> mel_spectrogram env audio)
      else
        (case np_load env (path_join env (audio_path L) filename) of
           Inl e \<Rightarrow> Inl e
         | Inr melspec \<Rightarrow>
             if dim0 melspec = n_mel_channels L then Inr melspec else Inl AssertionError))"

definition get_alignment ::
  "'g env \<Rightarrow> loader \<Rightarrow> pystr \<Rightarrow> flag \<Rightarrow> flag \<Rightarrow> error + tensor2 option" where
  "get_alignment env L audio_name st ph =
     (let alignment_name = fst (splitext env audio_name) @ py ''.npy'' in
      if truthy ph then Inr None
      else
        (let sub_dir = (if \<not> truthy st then py ''original'' else py ''stressed'') in
         case alignment_path L sub_dir of
           None \<Rightarrow> Inl KeyError
         | Some dir \<Rightarrow>
             (case np_load env (path_join env dir alignment_name) of
                Inl e \<Rightarrow> Inl e
              | Inr a \<Rightarrow> Inr (Some a))))"

text \<open>\<open>get_ctc_text\<close>: both comprehensions, the first raising on an unknown id.\<close>

fun ids_to_symbols :: "(int \<rightharpoonup> pystr) \<Rightarrow> int list \<Rightarrow> error + pystr list" where
  "ids_to_symbols m [] = Inr []"
| "ids_to_symbols m (s # rest) =
     (case m s of
        None \<Rightarrow> Inl KeyError
      | Some sb \<Rightarrow> (case ids_to_symbols m rest of Inl e \<Rightarrow> Inl e | Inr sbs \<Rightarrow> Inr (sb # sbs)))"

definition get_ctc_text :: "'g env \<Rightarrow> loader \<Rightarrow> int list \<Rightarrow> error + int list" where
  "get_ctc_text env L sequence =
     (case ids_to_symbols (id_to_symbol env) sequence of
        Inl e \<Rightarrow> Inl e
      | Inr txt \<Rightarrow>
          (case ctc_symbol_to_id L of
             None \<Rightarrow> if txt = [] then Inr [] else Inl TypeError
           | Some m \<Rightarrow> int_tensor (map (\<lambda>s. the (m s)) (filter (\<lambda>s. m s \<noteq> None) txt))))"

text \<open>An example is the tuple \<open>(sequence, mel, alignment, ctc_sequence)\<close>.\<close>

type_synonym example = "int list \<times> tensor2 \<times> tensor2 option \<times> int list option"

text \<open>
  The alignment part of \<open>get_data\<close>, lines 199 to 210. Formatting the message reads
  \<open>alignment.shape\<close>, which raises when the alignment is \<open>None\<close>, before anything is
  printed.
\<close>

definition load_alignment ::
  "'g env \<Rightarrow> loader \<Rightarrow> pystr \<Rightarrow> flag \<Rightarrow> flag \<Rightarrow> int list \<Rightarrow> tensor2 \<Rightarrow> 'g world
     \<Rightarrow> (error + tensor2 option) \<times> 'g world" where
  "load_alignment env L audio_name st ph sequence mel w =
     (if get_alignments L then
        (if \<not> (\<not> word_level_prob L \<and> \<not> add_silence L) then (Inl AssertionError, w)
         else
           (case get_alignment env L audio_name st ph of
              Inl e \<Rightarrow> (Inl e, w)
            | Inr None \<Rightarrow> (Inl AttributeError, w)
            | Inr (Some a) \<Rightarrow>
                if (dim1 mel, length sequence) \<noteq> shape a then
                  (Inr (Some (np_zeros (dim1 mel) (length sequence))),
                   w\<lparr>stdout := stdout w @ [ShapeProblem audio_name (dim1 mel, length sequence) (shape a)]\<rparr>)
                else (Inr (Some a), w)))
      else (Inr None, w))"

text \<open>The auxiliary sequence of \<open>get_data\<close>, lines 212 to 214.\<close>

definition load_ctc :: "'g env \<Rightarrow> loader \<Rightarrow> int list \<Rightarrow> error + int list option" where
  "load_ctc env L sequence =
     (if use_mmi L then
        (case get_ctc_text env L sequence of Inl e \<Rightarrow> Inl e | Inr c \<Rightarrow> Inr (Some c))
      else Inr None)"

definition get_data ::
  "'g env \<Rightarrow> loader \<Rightarrow> pystr \<times> pystr \<Rightarrow> 'g world \<Rightarrow> (error + example) \<times> 'g world" where
  "get_data env L sample w =
     (let ((st, ph), w1) = get_sress_phonemes env L w;
          (audio_name, txt) = sample
      in case get_text env L txt st ph w1 of
           (Inl e, w2) \<Rightarrow> (Inl e, w2)
         | (Inr sequence, w2) \<Rightarrow>
             (case get_mel env L audio_name of
                Inl e \<Rightarrow> (Inl e, w2)
              | Inr mel \<Rightarrow>
                  (case load_alignment env L audio_name st ph sequence mel w2 of
                     (Inl e, w3) \<Rightarrow> (Inl e, w3)
                   | (Inr alignment, w3) \<Rightarrow>
                       (case load_ctc env L sequence of
                          Inl e \<Rightarrow> (Inl e, w3)
                        | Inr ctc_sequence \<Rightarrow> (Inr (sequence, mel, alignment, ctc_sequence), w3)))))"

section \<open>TextMelCollate\<close>

text \<open>The named tuples \<open>Inputs\<close> and \<open>InputsCTC\<close> returned by the collator.\<close>

record inputs =
  inp_text :: "int list list"
  inp_mels :: "real list list list"
  inp_gate :: "real list list"
  text_len :: "nat list"
  mel_len :: "nat list"

record inputs_ctc =
  ctc_text :: "int list list"
  ctc_length :: "nat list"

text \<open>
  \<open>torch.sort(..., descending=True)\<close> is a parameter of the collator, since the order it
  gives to equal lengths is not fixed. It returns the sorted values and the indices;
  \<open>sort_desc_ok xs r\<close> is its contract on the input \<open>xs\<close>: the indices are a permutation
  of the positions, the values are the input read through them, and the values descend.
\<close>

type_synonym torch_sort = "nat list \<Rightarrow> nat list \<times> nat list"

definition sort_desc_ok :: "nat list \<Rightarrow> nat list \<times> nat list \<Rightarrow> bool" where
  "sort_desc_ok xs r =
     (sort (snd r) = [0..<length xs] \<and> fst r = map (\<lambda>i. xs ! i) (snd r) \<and> sorted (rev (fst r)))"

text \<open>One implementation of that contract, which keeps equal lengths in input order.\<close>

definition stable_sort_desc :: torch_sort where
  "stable_sort_desc xs =
     (let ids = sort_key (\<lambda>i. - int (xs ! i)) [0..<length xs] in (map (\<lambda>i. xs ! i) ids, ids))"

text \<open>Indexing and assignment, with the exceptions of Python and torch.\<close>

definition first_item :: "'a list \<Rightarrow> error + 'a" where
  "first_item xs = (case xs of [] \<Rightarrow> Inl IndexError | x # _ \<Rightarrow> Inr x)"

definition get_item :: "'a list \<Rightarrow> nat \<Rightarrow> error + 'a" where
  "get_item xs i = (if i < length xs then Inr (xs ! i) else Inl IndexError)"

definition set_item :: "'a list \<Rightarrow> nat \<Rightarrow> 'a \<Rightarrow> error + 'a list" where
  "set_item xs i v = (if i < length xs then Inr (xs[i := v]) else Inl IndexError)"

definition py_max :: "nat list \<Rightarrow> error + nat" where
  "py_max xs = (case xs of [] \<Rightarrow> Inl ValueError | x # rest \<Rightarrow> Inr (fold max rest x))"

text \<open>
  \<open>row[:n] = src\<close> on a one-dimensional row. The slice has \<open>min n (len row)\<close> places;
  torch copies a source of that size, broadcasts a source of size one, and raises
  otherwise.
\<close>

definition assign_prefix :: "'a list \<Rightarrow> nat \<Rightarrow> 'a list \<Rightarrow> error + 'a list" where
  "assign_prefix row n src =
     (let c = min n (length row) in
      if length src = c then Inr (src @ drop c row)
      else if length src = 1 then Inr (replicate c (hd src) @ drop c row)
      else Inl RuntimeError)"

text \<open>\<open>row[k:] = v\<close> for a scalar \<open>v\<close>; a negative \<open>k\<close> counts from the end of the row.\<close>

definition fill_from :: "'a list \<Rightarrow> int \<Rightarrow> 'a \<Rightarrow> 'a list" where
  "fill_from row k v =
     (let lo = norm_idx k (length row) in take lo row @ replicate (length row - lo) v)"

text \<open>
  \<open>m[:r, :c] = src\<close> on a matrix \<open>m\<close> with \<open>ncols\<close> columns. The source is copied when
  its shape is the shape of the slice, a dimension of size one is broadcast, and any other
  shape raises.
\<close>

definition assign_block :: "real list list \<Rightarrow> nat \<Rightarrow> nat \<Rightarrow> nat \<Rightarrow> tensor2 \<Rightarrow> error + real list list" where
  "assign_block m ncols r c src =
     (let r' = min r (length m); c' = min c ncols in
      if (dim0 src = r' \<or> dim0 src = 1) \<and> (dim1 src = c' \<or> dim1 src = 1) then
        Inr (map (\<lambda>k. if k < r' then
                        (let srow = elems src ! (if dim0 src = r' then k else 0)
                         in (if dim1 src = c' then srow else replicate c' (srow ! 0)) @ drop c' (m ! k))
                      else m ! k)
               [0..<length m])
      else Inl RuntimeError)"

text \<open>The tensors the collator allocates and then fills row by row.\<close>

record cstate =
  text_padded :: "int list list"
  mel_padded :: "real list list list"
  gate_padded :: "real list list"
  alignments_padded :: "real list list list option"
  ctc_text_padded :: "int list list option"
  ctc_text_lengths :: "nat list option"
  output_lengths :: "nat list"

text \<open>
  The body of the loop of \<open>__call__\<close> for the row \<open>i\<close> and the example
  \<open>(txt, mel, alignment, ctc_txt) = batch[idx]\<close>, in three parts: the assignments to
  \<open>output_lengths\<close>, \<open>text_padded\<close>, \<open>mel_padded\<close> and \<open>gate_padded\<close>, then the
  alignment, then the auxiliary text. \<open>mt\<close> and \<open>mi\<close> are \<open>max_target_len\<close> and
  \<open>max_input_len\<close>.
\<close>

definition step_main :: "nat \<Rightarrow> nat \<Rightarrow> int list \<Rightarrow> tensor2 \<Rightarrow> cstate \<Rightarrow> error + cstate" where
  "step_main mt i txt mel st =
     (let in_len = length txt; target_len = dim1 mel in
      case set_item (output_lengths st) i target_len of
        Inl e \<Rightarrow> Inl e
      | Inr ol \<Rightarrow>
          (case get_item (text_padded st) i of
             Inl e \<Rightarrow> Inl e
           | Inr trow \<Rightarrow>
               (case assign_prefix trow in_len txt of
                  Inl e \<Rightarrow> Inl e
                | Inr trow' \<Rightarrow>
                    (case get_item (mel_padded st) i of
                       Inl e \<Rightarrow> Inl e
                     | Inr mrows \<Rightarrow>
                         (case assign_block mrows mt (length mrows) target_len mel of
                            Inl e \<Rightarrow> Inl e
                          | Inr mrows' \<Rightarrow>
                              (case get_item (gate_padded st) i of
                                 Inl e \<Rightarrow> Inl e
                               | Inr grow \<Rightarrow>
                                   Inr (st\<lparr>output_lengths := ol,
                                           text_padded := (text_padded st)[i := trow'],
                                           mel_padded := (mel_padded st)[i := mrows'],
                                           gate_padded :=
                                             (gate_padded st)[i := fill_from grow (int target_len - 1) 1]\<rparr>)))))))"

definition step_alignment :: "nat \<Rightarrow> nat \<Rightarrow> int list \<Rightarrow> tensor2 \<Rightarrow> tensor2 option \<Rightarrow> cstate \<Rightarrow> error + cstate" where
  "step_alignment mi i txt mel alignment st =
     (case get_item (the (alignments_padded st)) i of
        Inl e \<Rightarrow> Inl e
      | Inr arows \<Rightarrow>
          (case assign_block arows mi (dim1 mel) (length txt) (the alignment) of
             Inl e \<Rightarrow> Inl e
           | Inr arows' \<Rightarrow>
               Inr (st\<lparr>alignments_padded := Some ((the (alignments_padded st))[i := arows'])\<rparr>)))"

definition step_ctc :: "nat \<Rightarrow> int list option \<Rightarrow> cstate \<Rightarrow> error + cstate" where
  "step_ctc i ctc_txt st =
     (let ctc_txt_len = length (the ctc_txt) in
      case set_item (the (ctc_text_lengths st)) i ctc_txt_len of
        Inl e \<Rightarrow> Inl e
      | Inr cl \<Rightarrow>
          (case get_item (the (ctc_text_padded st)) i of
             Inl e \<Rightarrow> Inl e
           | Inr crow \<Rightarrow>
               (case assign_prefix crow ctc_txt_len (the ctc_txt) of
                  Inl e \<Rightarrow> Inl e
                | Inr crow' \<Rightarrow>
                    Inr (st\<lparr>ctc_text_lengths := Some cl,
                            ctc_text_padded := Some ((the (ctc_text_padded st))[i := crow'])\<rparr>))))"

text \<open>
  \<open>use_alignment\<close> and \<open>use_ctc_text\<close> are the flags \<open>get_alignment\<close> and
  \<open>get_ctc_text\<close> of the source.
\<close>

definition collate_step ::
  "bool \<Rightarrow> bool \<Rightarrow> nat \<Rightarrow> nat \<Rightarrow> example list \<Rightarrow> nat \<Rightarrow> nat \<Rightarrow> cstate \<Rightarrow> error + cstate" where
  "collate_step use_alignment use_ctc_text mt mi batch i idx st =
     (case get_item batch idx of
        Inl e \<Rightarrow> Inl e
      | Inr (txt, mel, alignment, ctc_txt) \<Rightarrow>
          (case step_main mt i txt mel st of
             Inl e \<Rightarrow> Inl e
           | Inr st1 \<Rightarrow>
               (case (if use_alignment then step_alignment mi i txt mel alignment st1 else Inr st1) of
                  Inl e \<Rightarrow> Inl e
                | Inr st2 \<Rightarrow> if use_ctc_text then step_ctc i ctc_txt st2 else Inr st2)))"

text \<open>The loop over \<open>enumerate(ids_sorted_decreasing)\<close>.\<close>

fun collate_loop ::
  "bool \<Rightarrow> bool \<Rightarrow> nat \<Rightarrow> nat \<Rightarrow> example list \<Rightarrow> (nat \<times> nat) list \<Rightarrow> cstate \<Rightarrow> error + cstate" where
  "collate_loop ua uc mt mi batch [] st = Inr st"
| "collate_loop ua uc mt mi batch ((i, idx) # rest) st =
     (case collate_step ua uc mt mi batch i idx st of
        Inl e \<Rightarrow> Inl e
      | Inr st' \<Rightarrow> collate_loop ua uc mt mi batch rest st')"

text \<open>
  The allocations of \<open>__call__\<close>. The two length tensors are allocated without being
  initialised; the model starts them at zero.
\<close>

definition allocate :: "bool \<Rightarrow> bool \<Rightarrow> example list \<Rightarrow> nat \<Rightarrow> nat \<Rightarrow> nat \<Rightarrow> error + cstate" where
  "allocate use_alignment use_ctc_text batch mi mt num_mels =
     (let batchsize = length batch in
      case (if use_ctc_text then
              (case py_max (map (\<lambda>x. length (the (snd (snd (snd x))))) batch) of
                 Inl e \<Rightarrow> Inl e
               | Inr max_ctc_text_len \<Rightarrow>
                   Inr (Some (replicate batchsize (replicate max_ctc_text_len 0)),
                        Some (replicate batchsize 0)))
            else Inr (None, None)) of
        Inl e \<Rightarrow> Inl e
      | Inr (ctp, ctl) \<Rightarrow>
          Inr \<lparr>text_padded = replicate batchsize (replicate mi 0),
               mel_padded = replicate batchsize (replicate num_mels (replicate mt 0)),
               gate_padded = replicate batchsize (replicate mt 0),
               alignments_padded =
                 (if use_alignment then Some (replicate batchsize (replicate mt (replicate mi 0)))
                  else None),
               ctc_text_padded = ctp,
               ctc_text_lengths = ctl,
               output_lengths = replicate batchsize 0\<rparr>)"

text \<open>\<open>TextMelCollate.__call__\<close>: the result is \<open>(inputs, alignments_padded, inputs_ctc)\<close>.\<close>

definition collate ::
  "torch_sort \<Rightarrow> example list \<Rightarrow> error + inputs \<times> real list list list option \<times> inputs_ctc option" where
  "collate srt batch =
     (let use_alignment = \<not> list_ex (\<lambda>elem. fst (snd (snd elem)) = None) batch;
          use_ctc_text = \<not> list_ex (\<lambda>elem. snd (snd (snd elem)) = None) batch;
          (input_lengths, ids_sorted_decreasing) = srt (map (\<lambda>x. length (fst x)) batch)
      in case first_item input_lengths of
           Inl e \<Rightarrow> Inl e
         | Inr max_input_len \<Rightarrow>
        (case py_max (map (\<lambda>x. dim1 (fst (snd x))) batch) of
           Inl e \<Rightarrow> Inl e
         | Inr max_target_len \<Rightarrow>
        (case first_item batch of
           Inl e \<Rightarrow> Inl e
         | Inr b0 \<Rightarrow>
        (let num_mels = dim0 (fst (snd b0)) in
         case allocate use_alignment use_ctc_text batch max_input_len max_target_len num_mels of
           Inl e \<Rightarrow> Inl e
         | Inr st0 \<Rightarrow>
        (case collate_loop use_alignment use_ctc_text max_target_len max_input_len batch
                (zip [0..<length ids_sorted_decreasing] ids_sorted_decreasing) st0 of
           Inl e \<Rightarrow> Inl e
         | Inr st \<Rightarrow>
             Inr (\<lparr>inp_text = text_padded st, inp_mels = mel_padded st, inp_gate = gate_padded st,
                   text_len = input_lengths, mel_len = output_lengths st\<rparr>,
                  alignments_padded st,
                  (if use_ctc_text then
                     Some \<lparr>ctc_text = the (ctc_text_padded st), ctc_length = the (ctc_text_lengths st)\<rparr>
                   else None)))))))"

section \<open>Predicates and concrete inputs of the statements\<close>

text \<open>
  A bucket \<open>b\<close> is good for the lengths \<open>L\<close> and the window \<open>d\<close> when its members are
  positions of \<open>L\<close> and, unless it has exactly one member, any two of its members have
  lengths less than \<open>d\<close> apart.
\<close>

definition bucket_good :: "int list \<Rightarrow> int \<Rightarrow> nat list \<Rightarrow> bool" where
  "bucket_good L d b =
     ((\<forall>i\<in>set b. i < length L) \<and>
      (length b \<noteq> 1 \<longrightarrow> (\<forall>i\<in>set b. \<forall>j\<in>set b. L ! i - L ! j < d)))"

text \<open>
  The invariant of the bucketing loop: the window is \<open>[mn, mn + d)\<close>, the closed buckets
  are good, and the open bucket lies in the window or is a seed that an empty window
  leaves alone.
\<close>

definition bucket_inv :: "int list \<Rightarrow> int \<Rightarrow> bucket_state \<Rightarrow> bool" where
  "bucket_inv L d st =
     (case st of (opt, cur, mn, mx) \<Rightarrow>
        mx = mn + d \<and> (\<forall>b\<in>set opt. bucket_good L d b) \<and> (\<forall>i\<in>set cur. i < length L) \<and>
        ((\<forall>i\<in>set cur. mn \<le> L ! i \<and> L ! i < mx) \<or> (length cur \<le> 1 \<and> mx \<le> mn)))"

text \<open>Two records with transcripts of 1 and 11 symbols.\<close>

definition two_records :: "(pystr \<times> pystr) list" where
  "two_records = [(py ''a.wav'', py ''a''), (py ''b.wav'', py ''hello world'')]"

text \<open>Four records with transcripts of 3, 2, 4 and 0 symbols.\<close>

definition four_records :: "(pystr \<times> pystr) list" where
  "four_records = [(py ''a.wav'', py ''abc''), (py ''b.wav'', py ''ab''),
                   (py ''c.wav'', py ''abcd''), (py ''d.wav'', [])]"

text \<open>A random source that always reverses, and two sampler states to run it on.\<close>

definition rev_perm :: "unit randperm" where
  "rev_perm n g = (rev [0..<n], g)"

definition bucketed_sampler :: sampler where
  "bucketed_sampler =
     \<lparr>optimize = True, shuffle = True, batchsize = 2, optimized_idxs = [[0, 1, 2], [3, 4]],
      idxs = [0, 1, 2, 3, 4]\<rparr>"

definition plain_sampler :: sampler where
  "plain_sampler =
     \<lparr>optimize = False, shuffle = True, batchsize = 2, optimized_idxs = [], idxs = [0, 1, 2]\<rparr>"

text \<open>
  A small world for the loader: paths are joined with a slash, the extension starts at the
  first dot, flags resolve to their truth value, the text service returns ten symbols, the
  wav reader finds one file sampled at 16000 Hz, and the array store holds a mel of shape
  \<open>(2, 50)\<close> and an alignment of shape \<open>(40, 10)\<close>.
\<close>

definition demo_env :: "unit env" where
  "demo_env =
     \<lparr>prob2bool = (\<lambda>f g. (truthy f, g)),
      text_to_sequence = (\<lambda>txt cleaners st ph prime always g. (Inr [1, 2, 3, 4, 5, 6, 7, 8, 9, 10], g)),
      id_to_symbol = Map.empty,
      path_join = (\<lambda>a b. a @ py ''/'' @ b),
      splitext = (\<lambda>p. (takeWhile (\<lambda>c. c \<noteq> 46) p, dropWhile (\<lambda>c. c \<noteq> 46) p)),
      wav_read = (\<lambda>p. if p = py ''wavs/a.wav'' then Inr (16000, [0, 1, 0]) else Inl FileNotFoundError),
      np_load = (\<lambda>p. if p = py ''wavs/a.npy'' then Inr (np_zeros 2 50)
                      else if p = py ''al/a.npy'' then Inr (np_zeros 40 10)
                      else Inl FileNotFoundError),
      np_float32_div = (\<lambda>xs d. xs),
      librosa_split = (\<lambda>xs db fl hl. [(0, int (length xs))]),
      mel_spectrogram = (\<lambda>xs. Inr (np_zeros 2 (length xs)))\<rparr>"

definition demo_loader :: loader where
  "demo_loader =
     \<lparr>data = [(py ''a.npy'', py ''some text'')],
      audio_path = py ''wavs'',
      alignment_path = [py ''original'' \<mapsto> py ''al'', py ''stressed'' \<mapsto> py ''als''],
      add_silence = False, hop_length = 256, ft_window = 1024, trim_silence = False,
      trim_top_db = 45, text_cleaners = [], max_wav_value = 32768, sampling_rate = 22050,
      load_mel_from_disk = True, n_mel_channels = 2, get_alignments = True,
      word_level_prob = False, stress = FBool False, phonemes = FBool False,
      dict_prime = False, use_mmi = False, ctc_symbol_to_id = None\<rparr>"

definition w0 :: "unit world" where
  "w0 = \<lparr>stdout = [], gen = ()\<rparr>"

text \<open>The same loader computing mels from audio, and the same loader in phoneme mode.\<close>

definition wav_loader :: loader where
  "wav_loader = demo_loader\<lparr>load_mel_from_disk := False\<rparr>"

definition phoneme_loader :: loader where
  "phoneme_loader = demo_loader\<lparr>phonemes := FBool True\<rparr>"

definition ten_symbols :: "int list" where
  "ten_symbols = [1, 2, 3, 4, 5, 6, 7, 8, 9, 10]"

text \<open>Symbol length and mel time of an example.\<close>

definition symbol_len :: "example \<Rightarrow> nat" where
  "symbol_len x = length (fst x)"

definition mel_time :: "example \<Rightarrow> nat" where
  "mel_time x = dim1 (fst (snd x))"

text \<open>
  What one pass of the loop body does to the row \<open>i\<close> of the gate, of the text and of
  the mel lengths when it handles \<open>batch[idx]\<close>, and what it leaves alone.
\<close>

definition row_done :: "example list \<Rightarrow> cstate \<Rightarrow> cstate \<Rightarrow> nat \<Rightarrow> nat \<Rightarrow> bool" where
  "row_done batch st st' i idx =
     (idx < length batch \<and> i < length (gate_padded st) \<and> i < length (text_padded st) \<and>
      i < length (output_lengths st) \<and>
      gate_padded st' ! i = fill_from (gate_padded st ! i) (int (mel_time (batch ! idx)) - 1) 1 \<and>
      output_lengths st' ! i = mel_time (batch ! idx) \<and>
      assign_prefix (text_padded st ! i) (symbol_len (batch ! idx)) (fst (batch ! idx))
        = Inr (text_padded st' ! i))"

definition rows_same :: "cstate \<Rightarrow> cstate \<Rightarrow> nat \<Rightarrow> bool" where
  "rows_same st st' j =
     (gate_padded st' ! j = gate_padded st ! j \<and> text_padded st' ! j = text_padded st ! j \<and>
      output_lengths st' ! j = output_lengths st ! j)"

definition same_lengths :: "cstate \<Rightarrow> cstate \<Rightarrow> bool" where
  "same_lengths st st' =
     (length (gate_padded st') = length (gate_padded st) \<and>
      length (text_padded st') = length (text_padded st) \<and>
      length (output_lengths st') = length (output_lengths st))"

text \<open>
  The shapes the loop relies on: \<open>n\<close> rows everywhere, text rows of length \<open>mi\<close>, \<open>nm\<close>
  channels per mel, \<open>mt\<close> frames per alignment, auxiliary rows of length \<open>mc\<close>.
\<close>

definition shape_inv :: "nat \<Rightarrow> nat \<Rightarrow> nat \<Rightarrow> nat \<Rightarrow> nat \<Rightarrow> bool \<Rightarrow> bool \<Rightarrow> cstate \<Rightarrow> bool" where
  "shape_inv n mi mt nm mc ua uc st =
     (length (text_padded st) = n \<and> (\<forall>r\<in>set (text_padded st). length r = mi) \<and>
      length (mel_padded st) = n \<and> (\<forall>m\<in>set (mel_padded st). length m = nm) \<and>
      length (gate_padded st) = n \<and> length (output_lengths st) = n \<and>
      (ua \<longrightarrow> (\<exists>A. alignments_padded st = Some A \<and> length A = n \<and> (\<forall>a\<in>set A. length a = mt))) \<and>
      (uc \<longrightarrow> (\<exists>C l. ctc_text_padded st = Some C \<and> ctc_text_lengths st = Some l \<and>
                     length C = n \<and> length l = n \<and> (\<forall>c\<in>set C. length c = mc))))"

text \<open>
  The shapes torch accepts in the loop for one example: a mel with the channels of the
  first mel (or one channel, which is broadcast) and, when alignments are collated, an
  alignment of shape \<open>(mel_time, symbol_len)\<close> up to broadcasting.
\<close>

definition example_ok :: "nat \<Rightarrow> bool \<Rightarrow> example \<Rightarrow> bool" where
  "example_ok num_mels ua x =
     (case x of (tx, mel, al, c) \<Rightarrow>
        (dim0 mel = num_mels \<or> dim0 mel = 1) \<and>
        (ua \<longrightarrow> (case al of
                   None \<Rightarrow> False
                 | Some a \<Rightarrow> (dim0 a = dim1 mel \<or> dim0 a = 1) \<and> (dim1 a = length tx \<or> dim1 a = 1))))"

definition collatable :: "example list \<Rightarrow> bool" where
  "collatable batch =
     (case batch of
        [] \<Rightarrow> False
      | b0 # _ \<Rightarrow>
          list_all (example_ok (dim0 (fst (snd b0)))
                      (\<not> list_ex (\<lambda>elem. fst (snd (snd elem)) = None) batch)) batch)"

text \<open>
  Three examples with symbol lengths 5, 3, 8 and mel times 3, 1, 2, without alignment or
  auxiliary sequence; and a batch of two examples where only the first has an alignment
  and only the second an auxiliary sequence.
\<close>

definition three_examples :: "example list" where
  "three_examples =
     [([1, 2, 3, 4, 5], \<lparr>dim0 = 2, dim1 = 3, elems = [[1, 2, 3], [4, 5, 6]]\<rparr>, None, None),
      ([1, 2, 3], \<lparr>dim0 = 2, dim1 = 1, elems = [[7], [8]]\<rparr>, None, None),
      ([1, 2, 3, 4, 5, 6, 7, 8], \<lparr>dim0 = 2, dim1 = 2, elems = [[1, 2], [4, 5]]\<rparr>, None, None)]"

definition mixed_batch :: "example list" where
  "mixed_batch =
     [([1, 2], \<lparr>dim0 = 1, dim1 = 2, elems = [[5, 6]]\<rparr>, Some (np_zeros 2 2), None),
      ([3], \<lparr>dim0 = 1, dim1 = 1, elems = [[7]]\<rparr>, None, Some [4])]"

text \<open>The batches expected from these two inputs.\<close>

definition three_collated :: inputs where
  "three_collated =
     \<lparr>inp_text = [[1, 2, 3, 4, 5, 6, 7, 8], [1, 2, 3, 4, 5, 0, 0, 0], [1, 2, 3, 0, 0, 0, 0, 0]],
      inp_mels = [[[1, 2, 0], [4, 5, 0]], [[1, 2, 3], [4, 5, 6]], [[7, 0, 0], [8, 0, 0]]],
      inp_gate = [[0, 1, 1], [0, 0, 1], [1, 1, 1]], text_len = [8, 5, 3], mel_len = [2, 3, 1]\<rparr>"

definition mixed_collated :: inputs where
  "mixed_collated =
     \<lparr>inp_text = [[1, 2], [3, 0]], inp_mels = [[[5, 6]], [[7, 0]]],
      inp_gate = [[0, 1], [1, 1]], text_len = [2, 1], mel_len = [2, 1]\<rparr>"

text \<open>
  What the loop needs of every example of the batch: lengths within the allocated maxima
  and shapes that torch accepts.
\<close>

definition batch_fits :: "nat \<Rightarrow> nat \<Rightarrow> nat \<Rightarrow> nat \<Rightarrow> bool \<Rightarrow> bool \<Rightarrow> example list \<Rightarrow> bool" where
  "batch_fits mi mt nm mc ua uc batch =
     (\<forall>e\<in>set batch. symbol_len e \<le> mi \<and> mel_time e \<le> mt \<and> example_ok nm ua e \<and>
        (uc \<longrightarrow> length (the (snd (snd (snd e)))) \<le> mc))"

text \<open>
  A batch whose first example has a mel without any frame, and the batch expected from it.
\<close>

definition zero_frame_batch :: "example list" where
  "zero_frame_batch =
     [([1, 2, 3], \<lparr>dim0 = 2, dim1 = 0, elems = [[], []]\<rparr>, None, None),
      ([1, 2], \<lparr>dim0 = 2, dim1 = 2, elems = [[1, 2], [4, 5]]\<rparr>, None, None)]"

definition zero_frame_collated :: inputs where
  "zero_frame_collated =
     \<lparr>inp_text = [[1, 2, 3], [1, 2, 0]], inp_mels = [[[0, 0], [0, 0]], [[1, 2], [4, 5]]],
      inp_gate = [[0, 1], [0, 1]], text_len = [3, 2], mel_len = [0, 2]\<rparr>"

section \<open>The sampler's buckets\<close>

lemma window_good:
  assumes "\<forall>i\<in>set cur. i < length L" and "\<forall>i\<in>set cur. mn \<le> L ! i \<and> L ! i < mn + d"
  shows "bucket_good L d cur"
proof -
  have "L ! i - L ! j < d" if "i \<in> set cur" "j \<in> set cur" for i j
  proof -
    have "L ! i < mn + d" "mn \<le> L ! j" using assms(2) that by auto
    then show ?thesis by arith
  qed
  then show ?thesis using assms(1) unfolding bucket_good_def by blast
qed

lemma small_good:
  assumes "\<forall>i\<in>set cur. i < length L" and "length cur \<le> 1"
  shows "bucket_good L d cur"
proof -
  have "length cur \<noteq> 1 \<Longrightarrow> cur = []" using assms(2) by (cases cur) auto
  then show ?thesis using assms(1) unfolding bucket_good_def by auto
qed

lemma inv_cur_good:
  assumes "bucket_inv L d (opt, cur, mn, mx)"
  shows "bucket_good L d cur"
  using assms window_good[of cur L mn d] small_good[of cur L d]
  unfolding bucket_inv_def by auto

lemma bucket_loop_inv:
  assumes "bucket_inv L d st" and "\<forall>(l, i)\<in>set ps. i < length L \<and> l = L ! i"
  shows "bucket_inv L d (bucket_loop d n j ps st)"
  using assms
proof (induction d n j ps st rule: bucket_loop.induct)
  case (1 len_diff n j st)
  then show ?case by simp
next
  case (2 len_diff n j len idx rest opt len_idxs min_len max_len)
  have idx: "idx < length L" "len = L ! idx" using 2(4) by auto
  have rest: "\<forall>(l, i)\<in>set rest. i < length L \<and> l = L ! i" using 2(4) by auto
  have inv: "bucket_inv L len_diff (opt, len_idxs, min_len, max_len)" by (rule 2(3))
  show ?case
  proof (cases "min_len \<le> len \<and> len < max_len")
    case True
    let ?cur = "len_idxs @ [idx]"
    let ?opt = "if j + 1 = n \<and> ?cur \<noteq> [] then opt @ [?cur] else opt"
    have win: "\<forall>i\<in>set ?cur. min_len \<le> L ! i \<and> L ! i < max_len"
      using inv True idx unfolding bucket_inv_def by auto
    have rng: "\<forall>i\<in>set ?cur. i < length L"
      using inv idx unfolding bucket_inv_def by auto
    have mx: "max_len = min_len + len_diff" using inv unfolding bucket_inv_def by simp
    have "bucket_good L len_diff ?cur" using window_good[OF rng] win mx by simp
    then have "bucket_inv L len_diff (?opt, ?cur, min_len, max_len)"
      using inv win rng unfolding bucket_inv_def by auto
    from 2(1)[OF True refl refl this rest] True show ?thesis by (simp add: Let_def)
  next
    case False
    have "bucket_good L len_diff len_idxs" using inv_cur_good[OF inv] .
    then have "bucket_inv L len_diff (opt @ [len_idxs], [idx], len, len + len_diff)"
      using inv idx unfolding bucket_inv_def by auto
    from 2(2)[OF False this rest] False show ?thesis by auto
  qed
qed

lemma pairs_ok:
  "\<forall>(l, i)\<in>set (lengths_idxs_pairs ds). i < length (text_lengths ds) \<and> l = text_lengths ds ! i"
proof -
  have "length (text_lengths ds) = length ds" by (simp add: text_lengths_def)
  then show ?thesis
    unfolding lengths_idxs_pairs_def by (auto simp: in_set_zip)
qed

lemma make_buckets_good:
  assumes "make_buckets ds len_diff = Inr bks" and "b \<in> set bks"
  shows "bucket_good (text_lengths ds) len_diff b"
proof -
  let ?ps = "lengths_idxs_pairs ds"
  obtain m i0 rest where ps: "?ps = (m, i0) # rest"
    using assms(1) unfolding make_buckets_def by (cases ?ps) auto
  let ?st = "bucket_loop len_diff (length ?ps) 0 ?ps ([], [], m, m + len_diff)"
  have bks: "bks = fst ?st" using assms(1) ps unfolding make_buckets_def by simp
  have "bucket_inv (text_lengths ds) len_diff ([], [], m, m + len_diff)"
    unfolding bucket_inv_def by simp
  then have "bucket_inv (text_lengths ds) len_diff ?st"
    using bucket_loop_inv pairs_ok by blast
  then show ?thesis using bks assms(2) unfolding bucket_inv_def by (auto split: prod.splits)
qed

lemma make_buckets_two_records: "make_buckets two_records 10 = Inr [[0]]"
  unfolding two_records_def make_buckets_def lengths_idxs_pairs_def text_lengths_def py_def
  by simp

lemma make_buckets_four_records: "make_buckets four_records 3 = Inr [[3, 1], [0, 2]]"
  unfolding four_records_def make_buckets_def lengths_idxs_pairs_def text_lengths_def py_def
  by (simp add: Let_def numeral_2_eq_2 numeral_3_eq_3)

text \<open>
  C1. Bucketing is meant to place every index of the dataset in exactly one bucket, the
  last bucket included. On two records whose transcripts have 1 and 11 symbols, with the
  window 10, the second record opens a new bucket at the last iteration and that bucket is
  never stored: the only bucket is \<open>[0]\<close>, and the sampler built without shuffling holds
  the single index 0.
\<close>

theorem last_bucket_not_flushed:
  "make_buckets two_records 10 = Inr [[0]] \<and>
   sampler_init (\<lambda>n g. ([0..<n], g)) two_records 2 False True 10 () =
     Inr (\<lparr>optimize = True, shuffle = False, batchsize = 2, optimized_idxs = [[0]], idxs = [0]\<rparr>, ())"
  unfolding sampler_init_def by (simp add: make_buckets_two_records)

text \<open>
  C8. In every bucket formed by the construction, except a bucket with exactly one
  member, any two members have transcript lengths less than \<open>len_diff\<close> apart; so the
  largest minus the smallest length in the bucket is below \<open>len_diff\<close>. The members are
  positions of the dataset.
\<close>

theorem bucket_span_lt_len_diff:
  assumes "make_buckets ds len_diff = Inr bks" and "b \<in> set bks" and "length b \<noteq> 1"
    and "i \<in> set b" and "j \<in> set b"
  shows "i < length ds \<and> j < length ds \<and>
         text_lengths ds ! i - text_lengths ds ! j < len_diff"
  using make_buckets_good[OF assms(1,2)] assms(3,4,5)
  unfolding bucket_good_def by (auto simp: text_lengths_def)

theorem bucket_span_lt_len_diff_witness:
  "make_buckets four_records 3 = Inr [[3, 1], [0, 2]] \<and> [3, 1] \<in> set [[3, 1], [0, 2]] \<and>
   length [3, 1 :: nat] \<noteq> 1 \<and> 1 \<in> set [3, 1 :: nat] \<and> 3 \<in> set [3, 1 :: nat] \<and>
   text_lengths four_records ! 1 - text_lengths four_records ! 3 < 3"
  using bucket_span_lt_len_diff[of four_records 3 "[[3, 1], [0, 2]]" "[3, 1]" 1 3]
    make_buckets_four_records
  by simp

section \<open>Reshuffling\<close>

lemma mset_map_nth_perm:
  assumes "mset p = mset [0..<length xs]"
  shows "mset (map (\<lambda>i. xs ! i) p) = mset xs"
proof -
  have "mset (map (\<lambda>i. xs ! i) p) = image_mset (\<lambda>i. xs ! i) (mset p)"
    by (simp only: mset_map)
  also have "\<dots> = image_mset (\<lambda>i. xs ! i) (mset [0..<length xs])"
    by (simp only: assms)
  also have "\<dots> = mset (map (\<lambda>i. xs ! i) [0..<length xs])"
    by (simp only: mset_map)
  also have "\<dots> = mset xs"
    by (simp only: map_nth)
  finally show ?thesis .
qed

lemma torch_shuffle_mset:
  assumes "randperm_ok rp"
  shows "mset (fst (torch_shuffle rp xs g)) = mset xs"
proof -
  obtain p g' where r: "rp (length xs) g = (p, g')" by (cases "rp (length xs) g")
  have "mset p = mset [0..<length xs]"
    using assms r unfolding randperm_ok_def by (metis fst_conv)
  then show ?thesis
    unfolding torch_shuffle_def using r mset_map_nth_perm[of p xs] by simp
qed

lemma mset_concat_cong:
  assumes "mset xss = mset yss"
  shows "mset (concat xss) = mset (concat yss)"
proof -
  have "mset (concat zs) = sum_mset (image_mset mset (mset zs))" for zs :: "'a list list"
    by (simp only: mset_concat flip: sum_mset_sum_list mset_map)
  then show ?thesis using assms by simp
qed

lemma shuffle_each_mset:
  assumes "randperm_ok rp"
  shows "mset (concat (fst (shuffle_each rp bks g))) = mset (concat bks)"
proof (induction bks arbitrary: g)
  case Nil
  then show ?case by simp
next
  case (Cons b bks)
  obtain b' g' where b: "torch_shuffle rp b g = (b', g')" by (cases "torch_shuffle rp b g")
  obtain r g'' where r: "shuffle_each rp bks g' = (r, g'')" by (cases "shuffle_each rp bks g'")
  have "mset b' = mset b" using torch_shuffle_mset[OF assms, of b g] b by simp
  moreover have "mset (concat r) = mset (concat bks)" using Cons.IH[of g'] r by simp
  ultimately show ?case using b r by simp
qed

lemma bucket_flat_mset:
  assumes "randperm_ok rp"
  shows "mset (fst (bucket_flat rp s g)) = mset (concat (optimized_idxs s))"
proof -
  obtain bks g1 where a: "shuffle_each rp (optimized_idxs s) g = (bks, g1)"
    by (cases "shuffle_each rp (optimized_idxs s) g")
  obtain bks' g2 where b: "torch_shuffle rp bks g1 = (bks', g2)"
    by (cases "torch_shuffle rp bks g1")
  have "mset bks' = mset bks" using torch_shuffle_mset[OF assms, of bks g1] b by simp
  then have "mset (concat bks') = mset (concat bks)" by (rule mset_concat_cong)
  also have "\<dots> = mset (concat (optimized_idxs s))"
    using shuffle_each_mset[OF assms, of "optimized_idxs s" g] a by simp
  finally show ?thesis unfolding bucket_flat_def using a b by simp
qed

lemma py_slice_chunk:
  assumes "(i + 1) * b \<le> length xs"
  shows "py_slice xs (int i * int b) ((int i + 1) * int b) = take b (drop (i * b) xs)"
proof -
  have nn: "norm_idx (int n) m = min n m" for n m
    unfolding norm_idx_def by simp
  have "int i * int b = int (i * b)" by simp
  then have lo: "norm_idx (int i * int b) (length xs) = i * b"
    using assms nn[of "i * b" "length xs"] by (simp del: of_nat_mult of_nat_add)
  have "(int i + 1) * int b = int ((i + 1) * b)" by (simp add: algebra_simps)
  then have hi: "norm_idx ((int i + 1) * int b) (length xs) = (i + 1) * b"
    using assms nn[of "(i + 1) * b" "length xs"] by (simp del: of_nat_mult of_nat_add)
  show ?thesis unfolding py_slice_def lo hi by simp
qed

lemma concat_chunks:
  assumes "k * b \<le> length xs"
  shows "concat (map (\<lambda>i. py_slice xs (int i * int b) ((int i + 1) * int b)) [0..<k]) = take (k * b) xs"
  using assms
proof (induction k)
  case 0
  then show ?case by simp
next
  case (Suc k)
  have le: "k * b \<le> length xs" using Suc.prems by simp
  have "py_slice xs (int k * int b) ((int k + 1) * int b) = take b (drop (k * b) xs)"
    using py_slice_chunk[of k b xs] Suc.prems by simp
  moreover have "take (k * b + b) xs = take (k * b) xs @ take b (drop (k * b) xs)"
    by (rule take_add)
  moreover have "Suc k * b = k * b + b" by simp
  ultimately show ?case using Suc.IH[OF le] by (simp del: mult_Suc)
qed

text \<open>
  C4. One call of \<open>reshuffle\<close> returns and changes only \<open>idxs\<close>. Without bucketing
  the new order is a rearrangement of the old one. With bucketing (and a batch size of at
  least 1) the flattened order of the shuffled buckets is a rearrangement of the stored
  buckets, and the new order is a rearrangement of that flattened order without its last
  \<open>length mod batchsize\<close> members.
\<close>

theorem reshuffle_multiset:
  assumes "randperm_ok rp" and "optimize s \<longrightarrow> 0 < batchsize s"
  shows "\<exists>s' g'. reshuffle rp s g = Inr (s', g') \<and> s' = s\<lparr>idxs := idxs s'\<rparr> \<and>
           (\<not> optimize s \<longrightarrow> mset (idxs s') = mset (idxs s)) \<and>
           (optimize s \<longrightarrow>
              (let flat = fst (bucket_flat rp s g);
                   dropped = nat (int (length flat) mod batchsize s)
               in mset flat = mset (concat (optimized_idxs s)) \<and>
                  dropped \<le> length flat \<and>
                  mset (idxs s') = mset (take (length flat - dropped) flat)))"
proof (cases "optimize s")
  case False
  obtain xs g1 where r: "torch_shuffle rp (idxs s) g = (xs, g1)"
    by (cases "torch_shuffle rp (idxs s) g")
  have "mset xs = mset (idxs s)" using torch_shuffle_mset[OF assms(1), of "idxs s" g] r by simp
  then show ?thesis using False r unfolding reshuffle_def by simp
next
  case True
  obtain flat g2 where f: "bucket_flat rp s g = (flat, g2)" by (cases "bucket_flat rp s g")
  define b where "b = nat (batchsize s)"
  have bpos: "0 < b" and bs: "batchsize s = int b" using assms(2) True by (simp_all add: b_def)
  define k where "k = length flat div b"
  have kb: "nat (int (length flat) div batchsize s) = k"
    unfolding bs k_def by (simp flip: zdiv_int)
  define chunks where
    "chunks = map (\<lambda>i. py_slice flat (int i * batchsize s) ((int i + 1) * batchsize s)) [0..<k]"
  obtain chunks' g3 where c: "torch_shuffle rp chunks g2 = (chunks', g3)"
    by (cases "torch_shuffle rp chunks g2")
  have res: "reshuffle rp s g = Inr (s\<lparr>idxs := concat chunks'\<rparr>, g3)"
    unfolding reshuffle_def using True f bpos bs kb c chunks_def by (simp add: Let_def)
  have le: "k * b \<le> length flat" unfolding k_def by simp
  have "mset chunks' = mset chunks" using torch_shuffle_mset[OF assms(1), of chunks g2] c by simp
  then have "mset (concat chunks') = mset (concat chunks)" by (rule mset_concat_cong)
  also have "concat chunks = take (k * b) flat"
    unfolding chunks_def bs using concat_chunks[OF le] by simp
  finally have m: "mset (concat chunks') = mset (take (k * b) flat)" .
  have dr: "nat (int (length flat) mod batchsize s) = length flat mod b"
    unfolding bs by (simp flip: zmod_int)
  have "k * b = length flat - length flat mod b"
    unfolding k_def by (simp add: minus_mod_eq_div_mult)
  then have m': "mset (concat chunks') = mset (take (length flat - length flat mod b) flat)"
    using m by simp
  have fl: "mset flat = mset (concat (optimized_idxs s))"
    using bucket_flat_mset[OF assms(1), of s g] f by simp
  show ?thesis using True res f fl m' dr by (simp add: Let_def)
qed

lemma rev_perm_ok: "randperm_ok rev_perm"
  unfolding randperm_ok_def rev_perm_def by simp

lemma bucket_flat_bucketed: "fst (bucket_flat rev_perm bucketed_sampler ()) = [4, 3, 2, 1, 0]"
  by code_simp

theorem reshuffle_multiset_witness:
  "randperm_ok rev_perm \<and> optimize bucketed_sampler \<and> 0 < batchsize bucketed_sampler \<and>
   \<not> optimize plain_sampler \<and>
   (\<exists>s' g'. reshuffle rev_perm bucketed_sampler () = Inr (s', g') \<and>
       mset (idxs s') = mset [4, 3, 2, 1 :: nat]) \<and>
   (\<exists>s' g'. reshuffle rev_perm plain_sampler () = Inr (s', g') \<and>
       mset (idxs s') = mset [0, 1, 2 :: nat])"
proof -
  have b: "optimize bucketed_sampler" "0 < batchsize bucketed_sampler"
    and b2: "batchsize bucketed_sampler = 2"
    by (simp_all add: bucketed_sampler_def)
  have p: "\<not> optimize plain_sampler" "idxs plain_sampler = [0, 1, 2]"
    by (simp_all add: plain_sampler_def)
  have "\<exists>s' g'. reshuffle rev_perm bucketed_sampler () = Inr (s', g') \<and>
          mset (idxs s') = mset [4, 3, 2, 1 :: nat]"
    using reshuffle_multiset[OF rev_perm_ok, of bucketed_sampler "()"] b bucket_flat_bucketed
    by (auto simp add: Let_def b2)
  moreover have "\<exists>s' g'. reshuffle rev_perm plain_sampler () = Inr (s', g') \<and>
          mset (idxs s') = mset [0, 1, 2 :: nat]"
    using reshuffle_multiset[OF rev_perm_ok, of plain_sampler "()"] p by auto
  ultimately show ?thesis using rev_perm_ok b p by blast
qed

section \<open>The loader\<close>

lemma demo_wav_read:
  "wav_read demo_env (path_join demo_env (audio_path wav_loader) (py ''a.wav'')) = Inr (16000, [0, 1, 0])"
  unfolding demo_env_def wav_loader_def demo_loader_def by (simp add: py_def)

lemma demo_flags: "get_sress_phonemes demo_env demo_loader w0 = ((FBool False, FBool False), w0)"
  unfolding get_sress_phonemes_def demo_env_def demo_loader_def w0_def by simp

lemma demo_text:
  "get_text demo_env demo_loader (py ''some text'') (FBool False) (FBool False) w0 = (Inr ten_symbols, w0)"
  unfolding get_text_def demo_env_def demo_loader_def w0_def ten_symbols_def int_tensor_def
  by simp

lemma demo_mel: "get_mel demo_env demo_loader (py ''a.npy'') = Inr (np_zeros 2 50)"
  unfolding get_mel_def demo_env_def demo_loader_def by (simp add: py_def np_zeros_def)

lemma demo_alignment:
  "get_alignment demo_env demo_loader (py ''a.npy'') (FBool False) (FBool False) = Inr (Some (np_zeros 40 10))"
  unfolding get_alignment_def demo_env_def demo_loader_def by (simp add: py_def)

lemma demo_ctc: "load_ctc demo_env demo_loader ten_symbols = Inr None"
  unfolding load_ctc_def demo_loader_def by simp

lemma phoneme_flags:
  "get_sress_phonemes demo_env phoneme_loader w0 = ((FBool False, FBool True), w0)"
  unfolding get_sress_phonemes_def demo_env_def phoneme_loader_def demo_loader_def w0_def by simp

lemma phoneme_text:
  "get_text demo_env phoneme_loader (py ''some text'') (FBool False) (FBool True) w0 = (Inr ten_symbols, w0)"
  unfolding get_text_def demo_env_def phoneme_loader_def demo_loader_def w0_def ten_symbols_def
    int_tensor_def
  by simp

lemma phoneme_mel: "get_mel demo_env phoneme_loader (py ''a.npy'') = Inr (np_zeros 2 50)"
  unfolding get_mel_def demo_env_def phoneme_loader_def demo_loader_def
  by (simp add: py_def np_zeros_def)

lemma phoneme_alignment_absent: "truthy ph \<Longrightarrow> get_alignment env L audio_name st ph = Inr None"
  unfolding get_alignment_def by simp

lemma phoneme_load_alignment:
  "load_alignment demo_env phoneme_loader (py ''a.npy'') (FBool False) (FBool True) ten_symbols
     (np_zeros 2 50) w0 = (Inl AttributeError, w0)"
  unfolding load_alignment_def
  by (simp add: phoneme_alignment_absent phoneme_loader_def demo_loader_def)

text \<open>
  C2. In phoneme mode the alignment loader returns nothing, whatever the store holds:
  here the store has an array for the name and \<open>get_alignment\<close> still gives \<open>None\<close>.
  Assembling the example is then meant to put a zero-filled placeholder in its place. It
  does not: building the message reads the shape of the absent alignment, and \<open>get_data\<close>
  ends with \<open>AttributeError\<close>, nothing printed.
\<close>

theorem phoneme_alignment_raises:
  "np_load demo_env (py ''al/a.npy'') = Inr (np_zeros 40 10) \<and>
   get_alignment demo_env phoneme_loader (py ''a.npy'') (FBool False) (FBool True) = Inr None \<and>
   get_data demo_env phoneme_loader (py ''a.npy'', py ''some text'') w0 = (Inl AttributeError, w0)"
proof -
  have "np_load demo_env (py ''al/a.npy'') = Inr (np_zeros 40 10)"
    unfolding demo_env_def by (simp add: py_def)
  moreover have "get_data demo_env phoneme_loader (py ''a.npy'', py ''some text'') w0 =
      (Inl AttributeError, w0)"
    unfolding get_data_def
    by (simp add: phoneme_flags phoneme_text phoneme_mel phoneme_load_alignment)
  ultimately show ?thesis by (simp add: phoneme_alignment_absent)
qed

text \<open>
  C7. With alignment mode on (and neither word-level probabilities nor added silence),
  when the text, the mel and the alignment were obtained and the loaded alignment does not
  have the shape \<open>(mel_time, symbol_len)\<close>, \<open>get_data\<close> raises nothing and returns the
  example with, as its alignment, the array of shape \<open>(mel_time, symbol_len)\<close> whose
  \<open>mel_time\<close> rows are \<open>symbol_len\<close> zeros each; one line is added to standard output
  naming the audio, the expected shape and the shape found.
\<close>

theorem shape_mismatch_zero_filled:
  assumes "get_alignments L" and "\<not> word_level_prob L" and "\<not> add_silence L"
    and "get_sress_phonemes env L w = ((st, ph), w1)"
    and "get_text env L txt st ph w1 = (Inr sequence, w2)"
    and "get_mel env L audio_name = Inr mel"
    and "get_alignment env L audio_name st ph = Inr (Some a)"
    and "shape a \<noteq> (dim1 mel, length sequence)"
    and "load_ctc env L sequence = Inr ctc_sequence"
  shows "get_data env L (audio_name, txt) w =
           (Inr (sequence, mel,
                 Some \<lparr>dim0 = dim1 mel, dim1 = length sequence,
                       elems = replicate (dim1 mel) (replicate (length sequence) 0)\<rparr>,
                 ctc_sequence),
            w2\<lparr>stdout := stdout w2 @ [ShapeProblem audio_name (dim1 mel, length sequence) (shape a)]\<rparr>) \<and>
         shape \<lparr>dim0 = dim1 mel, dim1 = length sequence,
                elems = replicate (dim1 mel) (replicate (length sequence) 0)\<rparr>
           = (dim1 mel, length sequence) \<and>
         length (replicate (dim1 mel) (replicate (length sequence) (0::real))) = dim1 mel \<and>
         (\<forall>row\<in>set (replicate (dim1 mel) (replicate (length sequence) (0::real))).
            length row = length sequence \<and> (\<forall>x\<in>set row. x = 0))"
proof -
  have "load_alignment env L audio_name st ph sequence mel w2 =
          (Inr (Some \<lparr>dim0 = dim1 mel, dim1 = length sequence,
                      elems = replicate (dim1 mel) (replicate (length sequence) 0)\<rparr>),
           w2\<lparr>stdout := stdout w2 @ [ShapeProblem audio_name (dim1 mel, length sequence) (shape a)]\<rparr>)"
    using assms(1,2,3,7,8) unfolding load_alignment_def np_zeros_def by auto
  then have "get_data env L (audio_name, txt) w =
           (Inr (sequence, mel,
                 Some \<lparr>dim0 = dim1 mel, dim1 = length sequence,
                       elems = replicate (dim1 mel) (replicate (length sequence) 0)\<rparr>,
                 ctc_sequence),
            w2\<lparr>stdout := stdout w2 @ [ShapeProblem audio_name (dim1 mel, length sequence) (shape a)]\<rparr>)"
    using assms(4,5,6,9) unfolding get_data_def by simp
  then show ?thesis by (simp add: shape_def)
qed

theorem shape_mismatch_zero_filled_witness:
  "get_alignments demo_loader \<and> \<not> word_level_prob demo_loader \<and> \<not> add_silence demo_loader \<and>
   get_mel demo_env demo_loader (py ''a.npy'') = Inr (np_zeros 2 50) \<and>
   get_alignment demo_env demo_loader (py ''a.npy'') (FBool False) (FBool False)
     = Inr (Some (np_zeros 40 10)) \<and>
   shape (np_zeros 40 10) = (40, 10) \<and> length ten_symbols = 10 \<and>
   get_data demo_env demo_loader (py ''a.npy'', py ''some text'') w0 =
     (Inr (ten_symbols, np_zeros 2 50,
           Some \<lparr>dim0 = 50, dim1 = 10, elems = replicate 50 (replicate 10 0)\<rparr>, None),
      \<lparr>stdout = [ShapeProblem (py ''a.npy'') (50, 10) (40, 10)], gen = ()\<rparr>) \<and>
   shape \<lparr>dim0 = 50, dim1 = 10, elems = replicate 50 (replicate 10 0)\<rparr> = (50, 10)"
proof -
  have h: "get_alignments demo_loader" "\<not> word_level_prob demo_loader" "\<not> add_silence demo_loader"
    by (simp_all add: demo_loader_def)
  have s: "shape (np_zeros 40 10) = (40, 10)" "length ten_symbols = 10" "dim1 (np_zeros 2 50) = 50"
    by (simp_all add: shape_def np_zeros_def ten_symbols_def)
  have ne: "shape (np_zeros 40 10) \<noteq> (dim1 (np_zeros 2 50), length ten_symbols)"
    using s by simp
  show ?thesis
    using shape_mismatch_zero_filled[OF h demo_flags demo_text demo_mel demo_alignment ne demo_ctc,
        THEN conjunct1]
      h demo_mel demo_alignment s
    by (simp add: w0_def shape_def)
qed

text \<open>
  C9. When the wav reader returns a file whose sample rate is not the configured one,
  \<open>get_audio\<close> raises \<open>ValueError\<close>, whatever the trimming and silence options; when mels
  are computed from audio, \<open>get_mel\<close> raises it too and \<open>get_data\<close> returns no example.
\<close>

theorem sample_rate_mismatch_raises:
  assumes "wav_read env (path_join env (audio_path L) filename) = Inr (sample_rate, audio)"
    and "sample_rate \<noteq> sampling_rate L"
  shows "get_audio env L filename trim add = Inl ValueError \<and>
         (\<not> load_mel_from_disk L \<longrightarrow>
            get_mel env L filename = Inl ValueError \<and>
            isl (fst (get_data env L (filename, txt) w)))"
proof -
  have a: "get_audio env L filename trim add = Inl ValueError" for trim add
    using assms unfolding get_audio_def by (simp add: Let_def)
  have m: "get_mel env L filename = Inl ValueError" if "\<not> load_mel_from_disk L"
    using that a unfolding get_mel_def by simp
  have "isl (fst (get_data env L (filename, txt) w))" if "\<not> load_mel_from_disk L"
    using m[OF that] unfolding get_data_def
    by (auto simp: Let_def split: prod.splits sum.splits)
  then show ?thesis using a m by blast
qed

theorem sample_rate_mismatch_raises_witness:
  "wav_read demo_env (path_join demo_env (audio_path wav_loader) (py ''a.wav'')) = Inr (16000, [0, 1, 0]) \<and>
   16000 \<noteq> sampling_rate wav_loader \<and> \<not> load_mel_from_disk wav_loader \<and>
   get_audio demo_env wav_loader (py ''a.wav'') False False = Inl ValueError \<and>
   get_mel demo_env wav_loader (py ''a.wav'') = Inl ValueError \<and>
   isl (fst (get_data demo_env wav_loader (py ''a.wav'', py ''some text'') w0))"
proof -
  have h: "16000 \<noteq> sampling_rate wav_loader" "\<not> load_mel_from_disk wav_loader"
    by (simp_all add: wav_loader_def demo_loader_def)
  show ?thesis
    using sample_rate_mismatch_raises[OF demo_wav_read h(1), of False False "py ''some text''" w0]
      demo_wav_read h
    by simp
qed

section \<open>The collator\<close>

subsection \<open>Rows written by the loop\<close>

lemma step_main_fields:
  assumes "step_main mt i sq mel st = Inr st1"
  shows "i < length (gate_padded st) \<and> i < length (text_padded st) \<and> i < length (output_lengths st) \<and>
         gate_padded st1 = (gate_padded st)[i := fill_from (gate_padded st ! i) (int (dim1 mel) - 1) 1] \<and>
         output_lengths st1 = (output_lengths st)[i := dim1 mel] \<and>
         (\<exists>r. assign_prefix (text_padded st ! i) (length sq) sq = Inr r \<and>
              text_padded st1 = (text_padded st)[i := r])"
  using assms unfolding step_main_def get_item_def set_item_def
  by (auto simp: Let_def split: sum.splits if_splits)

lemma step_alignment_fields:
  assumes "step_alignment mi i sq mel al st = Inr st1"
  shows "gate_padded st1 = gate_padded st \<and> text_padded st1 = text_padded st \<and>
         output_lengths st1 = output_lengths st"
  using assms unfolding step_alignment_def get_item_def
  by (auto split: sum.splits if_splits)

lemma step_ctc_fields:
  assumes "step_ctc i c st = Inr st1"
  shows "gate_padded st1 = gate_padded st \<and> text_padded st1 = text_padded st \<and>
         output_lengths st1 = output_lengths st"
  using assms unfolding step_ctc_def get_item_def set_item_def
  by (auto simp: Let_def split: sum.splits if_splits)

lemma collate_step_fields:
  assumes "collate_step ua uc mt mi batch i idx st = Inr st'"
  shows "same_lengths st st' \<and> row_done batch st st' i idx \<and> (\<forall>j. j \<noteq> i \<longrightarrow> rows_same st st' j)"
proof -
  have idx: "idx < length batch"
    using assms unfolding collate_step_def get_item_def by (auto split: if_splits)
  obtain sq mel al c where b: "batch ! idx = (sq, mel, al, c)" by (cases "batch ! idx")
  obtain st1 where s1: "step_main mt i sq mel st = Inr st1"
    using assms idx b unfolding collate_step_def get_item_def by (auto split: sum.splits)
  obtain st2 where s2: "(if ua then step_alignment mi i sq mel al st1 else Inr st1) = Inr st2"
    using assms idx b s1 unfolding collate_step_def get_item_def by (auto split: sum.splits)
  have s3: "(if uc then step_ctc i c st2 else Inr st2) = Inr st'"
    using assms idx b s1 s2 unfolding collate_step_def get_item_def by simp
  have k2: "gate_padded st2 = gate_padded st1 \<and> text_padded st2 = text_padded st1 \<and>
         output_lengths st2 = output_lengths st1"
    using s2 step_alignment_fields by (auto split: if_splits)
  have k3: "gate_padded st' = gate_padded st2 \<and> text_padded st' = text_padded st2 \<and>
         output_lengths st' = output_lengths st2"
    using s3 step_ctc_fields by (auto split: if_splits)
  note f = step_main_fields[OF s1]
  have "same_lengths st st'" using f k2 k3 unfolding same_lengths_def by auto
  moreover have "row_done batch st st' i idx"
    using f k2 k3 idx b unfolding row_done_def mel_time_def symbol_len_def by auto
  moreover have "rows_same st st' j" if "j \<noteq> i" for j
    using f k2 k3 that unfolding rows_same_def by auto
  ultimately show ?thesis by blast
qed

lemma row_done_trans1:
  assumes "row_done batch st st1 i idx" and "same_lengths st st1" and "rows_same st1 st' i"
  shows "row_done batch st st' i idx"
  using assms unfolding row_done_def rows_same_def same_lengths_def by simp

lemma row_done_trans2:
  assumes "row_done batch st1 st' i idx" and "same_lengths st st1" and "rows_same st st1 i"
  shows "row_done batch st st' i idx"
  using assms unfolding row_done_def rows_same_def same_lengths_def by simp

lemma collate_loop_rows:
  assumes "collate_loop ua uc mt mi batch ps st = Inr st'" and "distinct (map fst ps)"
  shows "same_lengths st st' \<and> (\<forall>j. j \<notin> fst ` set ps \<longrightarrow> rows_same st st' j) \<and>
         (\<forall>(i, idx)\<in>set ps. row_done batch st st' i idx)"
  using assms
proof (induction ps arbitrary: st)
  case Nil
  then show ?case by (simp add: same_lengths_def rows_same_def)
next
  case (Cons p ps)
  obtain i idx where p: "p = (i, idx)" by (cases p)
  obtain st1 where s1: "collate_step ua uc mt mi batch i idx st = Inr st1"
    and l: "collate_loop ua uc mt mi batch ps st1 = Inr st'"
    using Cons.prems(1) p by (auto split: sum.splits)
  have d: "distinct (map fst ps)" and ni: "i \<notin> fst ` set ps" using Cons.prems(2) p by auto
  note f = collate_step_fields[OF s1]
  note ih = Cons.IH[OF l d]
  have a: "same_lengths st st'" using f ih unfolding same_lengths_def by simp
  have b: "rows_same st st' j" if "j \<notin> fst ` set (p # ps)" for j
  proof -
    have "j \<noteq> i" "j \<notin> fst ` set ps" using that p by auto
    then have "rows_same st st1 j" "rows_same st1 st' j" using f ih by auto
    then show ?thesis unfolding rows_same_def by simp
  qed
  have c: "row_done batch st st' i' idx'" if "(i', idx') \<in> set (p # ps)" for i' idx'
  proof (cases "(i', idx') = (i, idx)")
    case True
    have "rows_same st1 st' i" using ih ni by blast
    then show ?thesis using row_done_trans1 f True by blast
  next
    case False
    then have m: "(i', idx') \<in> set ps" using that p by auto
    then have "i' \<noteq> i" using ni by force
    then have "rows_same st st1 i'" using f by blast
    moreover have "row_done batch st1 st' i' idx'" using ih m by blast
    ultimately show ?thesis using row_done_trans2 f by blast
  qed
  show ?case using a b c by blast
qed

lemma py_max_ge:
  assumes "py_max xs = Inr m" and "x \<in> set xs"
  shows "x \<le> m"
proof -
  obtain y ys where xs: "xs = y # ys" using assms(2) by (cases xs) auto
  have "fold max ys y = m" using assms(1) xs unfolding py_max_def by simp
  then have "m = Max (set (y # ys))" by (simp only: Max.set_eq_fold)
  then show ?thesis using assms(2) xs by simp
qed

lemma fill_from_nth:
  assumes "1 \<le> L" and "L \<le> n" and "j < n"
  shows "fill_from (replicate n (0::real)) (int L - 1) 1 ! j = (if j + 1 < L then 0 else 1)"
proof -
  have "int L - 1 = int (L - 1)" using assms(1) by simp
  then have lo: "norm_idx (int L - 1) n = L - 1"
    using assms(2) unfolding norm_idx_def by (simp del: of_nat_diff)
  show ?thesis
    unfolding fill_from_def using lo assms by (auto simp: nth_append)
qed

text \<open>
  An example without any mel frame is outside this pattern: \<open>target_len - 1\<close> is then
  \<open>-1\<close>, which Python reads from the end, and only the last frame of the row is set.
\<close>

lemma fill_from_no_frame:
  "fill_from (replicate n (0::real)) (int 0 - 1) 1 = replicate (n - 1) 0 @ replicate (min n 1) 1"
proof (cases n)
  case 0
  then show ?thesis unfolding fill_from_def norm_idx_def by simp
next
  case (Suc m)
  have "take m (replicate (Suc m) (0::real)) = replicate m 0" by (simp only: take_replicate) simp
  then show ?thesis unfolding fill_from_def norm_idx_def using Suc by (simp add: Let_def)
qed

lemma fill_from_length: "length (fill_from row k v) = length row"
  unfolding fill_from_def norm_idx_def by (auto simp: Let_def)


lemma allocate_rows:
  assumes "allocate ua uc batch mi mt nm = Inr st0"
  shows "gate_padded st0 = replicate (length batch) (replicate mt 0) \<and>
         text_padded st0 = replicate (length batch) (replicate mi 0) \<and>
         output_lengths st0 = replicate (length batch) 0"
  using assms unfolding allocate_def
  by (auto simp: Let_def split: sum.splits if_splits prod.splits)

lemma collate_rows:
  assumes "collate srt batch = Inr (inp, al, ctc)"
    and "srt (map (\<lambda>x. length (fst x)) batch) = (vals, ids)"
  shows "\<exists>mi mt. first_item vals = Inr mi \<and> py_max (map (\<lambda>x. dim1 (fst (snd x))) batch) = Inr mt \<and>
           text_len inp = vals \<and> length (inp_gate inp) = length batch \<and>
           length (inp_text inp) = length batch \<and> length (mel_len inp) = length batch \<and>
           (\<forall>i<length ids. ids ! i < length batch \<and> i < length batch \<and>
              inp_gate inp ! i = fill_from (replicate mt 0) (int (mel_time (batch ! (ids ! i))) - 1) 1 \<and>
              mel_len inp ! i = mel_time (batch ! (ids ! i)) \<and>
              assign_prefix (replicate mi 0) (symbol_len (batch ! (ids ! i))) (fst (batch ! (ids ! i)))
                = Inr (inp_text inp ! i))"
proof -
  let ?ua = "\<not> list_ex (\<lambda>elem. fst (snd (snd elem)) = None) batch"
  let ?uc = "\<not> list_ex (\<lambda>elem. snd (snd (snd elem)) = None) batch"
  let ?ps = "zip [0..<length ids] ids"
  obtain mi where mi: "first_item vals = Inr mi"
    using assms unfolding collate_def by (auto simp: Let_def split: sum.splits)
  obtain mt where mt: "py_max (map (\<lambda>x. dim1 (fst (snd x))) batch) = Inr mt"
    using assms mi unfolding collate_def by (auto simp: Let_def split: sum.splits)
  obtain b0 where b0: "first_item batch = Inr b0"
    using assms mi mt unfolding collate_def by (auto simp: Let_def split: sum.splits)
  obtain st0 where st0: "allocate ?ua ?uc batch mi mt (dim0 (fst (snd b0))) = Inr st0"
    using assms mi mt b0 unfolding collate_def by (auto simp: Let_def split: sum.splits)
  obtain st where st: "collate_loop ?ua ?uc mt mi batch ?ps st0 = Inr st"
    using assms mi mt b0 st0 unfolding collate_def by (auto simp: Let_def split: sum.splits)
  have inp: "inp = \<lparr>inp_text = text_padded st, inp_mels = mel_padded st, inp_gate = gate_padded st,
                    text_len = vals, mel_len = output_lengths st\<rparr>"
    using assms mi mt b0 st0 st unfolding collate_def by (auto simp: Let_def)
  have d: "distinct (map fst ?ps)" by (simp add: map_fst_zip)
  note r = collate_loop_rows[OF st d]
  note a = allocate_rows[OF st0]
  have lens: "length (gate_padded st) = length batch" "length (text_padded st) = length batch"
    "length (output_lengths st) = length batch"
    using r a unfolding same_lengths_def by simp_all
  have rows: "ids ! i < length batch \<and> i < length batch \<and>
              gate_padded st ! i = fill_from (replicate mt 0) (int (mel_time (batch ! (ids ! i))) - 1) 1 \<and>
              output_lengths st ! i = mel_time (batch ! (ids ! i)) \<and>
              assign_prefix (replicate mi 0) (symbol_len (batch ! (ids ! i))) (fst (batch ! (ids ! i)))
                = Inr (text_padded st ! i)" if "i < length ids" for i
  proof -
    have "[0..<length ids] ! i = i" using that by simp
    then have "(i, ids ! i) \<in> set ?ps" using that unfolding in_set_zip by force
    then have rd: "row_done batch st0 st i (ids ! i)" using r by blast
    then have "i < length batch" using a unfolding row_done_def by simp
    then show ?thesis using rd a unfolding row_done_def by simp
  qed
  show ?thesis using mi mt inp lens rows by auto
qed

subsection \<open>The sort contract\<close>

lemma sort_desc_ok_perm:
  assumes "sort_desc_ok xs (vals, ids)"
  shows "mset ids = mset [0..<length xs]" and "length ids = length xs" and "length vals = length xs"
    and "set ids = {0..<length xs}" and "distinct ids"
proof -
  have s: "sort ids = [0..<length xs]" and v: "vals = map (\<lambda>i. xs ! i) ids"
    using assms unfolding sort_desc_ok_def by auto
  have "mset (sort ids) = mset ids" by simp
  then show m: "mset ids = mset [0..<length xs]" using s by (simp only:)
  then show l: "length ids = length xs" using mset_eq_length by fastforce
  show "length vals = length xs" using v l by simp
  show "set ids = {0..<length xs}" using m mset_eq_setD by fastforce
  have "distinct (sort ids)" using s by (simp only: distinct_upt)
  then show "distinct ids" by simp
qed

lemma sort_desc_ok_vals:
  assumes "sort_desc_ok xs (vals, ids)"
  shows "vals = rev (sort xs)"
proof -
  have v: "vals = map (\<lambda>i. xs ! i) ids" and sr: "sorted (rev vals)"
    using assms unfolding sort_desc_ok_def by auto
  have "mset vals = mset xs"
    using mset_map_nth_perm[OF sort_desc_ok_perm(1)[OF assms]] v by simp
  then have "mset (rev vals) = mset xs" by simp
  then have "sort xs = rev vals" using sr by (metis properties_for_sort)
  then show ?thesis by simp
qed

lemma sort_desc_ok_le_first:
  assumes "sort_desc_ok xs (vals, ids)" and "i < length vals"
  shows "vals ! i \<le> vals ! 0"
proof -
  have sr: "sorted (rev vals)" using assms(1) unfolding sort_desc_ok_def by auto
  let ?n = "length vals"
  have a: "rev vals ! (?n - 1 - i) = vals ! i" using assms(2) by (simp add: rev_nth)
  have b: "rev vals ! (?n - 1) = vals ! 0" using assms(2) by (simp add: rev_nth)
  have "rev vals ! (?n - 1 - i) \<le> rev vals ! (?n - 1)"
    using sr assms(2) by (intro sorted_nth_mono) auto
  then show ?thesis using a b by simp
qed

lemma first_item_nth: "first_item xs = Inr v \<Longrightarrow> xs \<noteq> [] \<and> v = xs ! 0"
  unfolding first_item_def by (cases xs) auto

lemma sort_desc_ok_empty:
  assumes "sort_desc_ok [] r"
  shows "fst r = []"
proof -
  have "sort (snd r) = []" and v: "fst r = map (\<lambda>i. [] ! i) (snd r)"
    using assms unfolding sort_desc_ok_def by auto
  then have "snd r = []" by (metis length_0_conv length_sort)
  then show ?thesis using v by simp
qed

subsection \<open>When the loop succeeds\<close>

lemma assign_prefix_fits:
  assumes "length src \<le> length row"
  shows "assign_prefix row (length src) src = Inr (src @ drop (length src) row)"
  using assms unfolding assign_prefix_def by (simp add: Let_def min_def)

lemma assign_prefix_length:
  assumes "assign_prefix row n src = Inr r"
  shows "length r = length row"
  using assms unfolding assign_prefix_def by (auto simp: Let_def split: if_splits)

lemma assign_block_length:
  assumes "assign_block m ncols r c src = Inr m'"
  shows "length m' = length m"
  using assms unfolding assign_block_def by (auto simp: Let_def split: if_splits)

lemma assign_block_ok:
  assumes "dim0 src = min r (length m) \<or> dim0 src = 1" and "dim1 src = min c ncols \<or> dim1 src = 1"
  shows "\<exists>m'. assign_block m ncols r c src = Inr m'"
  using assms unfolding assign_block_def by (simp add: Let_def)

lemma set_update_all:
  assumes "\<forall>x\<in>set xs. P x" and "P v"
  shows "\<forall>x\<in>set (xs[i := v]). P x"
  using assms set_update_subset_insert[of xs i v] by auto

lemma step_main_ok:
  assumes inv: "shape_inv n mi mt nm mc ua uc st" and i: "i < n"
    and tx: "length tx \<le> mi" and tl: "dim1 mel \<le> mt" and ch: "dim0 mel = nm \<or> dim0 mel = 1"
  shows "\<exists>st1. step_main mt i tx mel st = Inr st1 \<and> shape_inv n mi mt nm mc ua uc st1"
proof -
  have l: "i < length (output_lengths st)" "i < length (text_padded st)" "i < length (mel_padded st)"
    "i < length (gate_padded st)"
    using inv i unfolding shape_inv_def by simp_all
  have tr: "length (text_padded st ! i) = mi" and mr: "length (mel_padded st ! i) = nm"
    using inv l unfolding shape_inv_def by simp_all
  obtain r where r: "assign_prefix (text_padded st ! i) (length tx) tx = Inr r"
    using assign_prefix_fits[of tx "text_padded st ! i"] tx tr by auto
  have rl: "length r = mi" using assign_prefix_length[OF r] tr by simp
  obtain m' where m': "assign_block (mel_padded st ! i) mt (length (mel_padded st ! i)) (dim1 mel) mel = Inr m'"
    using assign_block_ok[of mel "length (mel_padded st ! i)" "mel_padded st ! i" "dim1 mel" mt] ch mr tl
    by (auto simp: min_def)
  have ml: "length m' = nm" using assign_block_length[OF m'] mr by simp
  let ?st1 = "st\<lparr>output_lengths := (output_lengths st)[i := dim1 mel],
                  text_padded := (text_padded st)[i := r],
                  mel_padded := (mel_padded st)[i := m'],
                  gate_padded := (gate_padded st)[i := fill_from (gate_padded st ! i) (int (dim1 mel) - 1) 1]\<rparr>"
  have res: "step_main mt i tx mel st = Inr ?st1"
    unfolding step_main_def get_item_def set_item_def using l r m' by (simp add: Let_def)
  have t: "\<forall>x\<in>set ((text_padded st)[i := r]). length x = mi"
    using inv rl unfolding shape_inv_def by (intro set_update_all) auto
  have m: "\<forall>x\<in>set ((mel_padded st)[i := m']). length x = nm"
    using inv ml unfolding shape_inv_def by (intro set_update_all) auto
  have "shape_inv n mi mt nm mc ua uc ?st1"
    using inv t m unfolding shape_inv_def by simp
  then show ?thesis using res by blast
qed

lemma step_alignment_ok:
  assumes inv: "shape_inv n mi mt nm mc True uc st" and i: "i < n"
    and tx: "length tx \<le> mi" and tl: "dim1 mel \<le> mt"
    and a: "al = Some a" "dim0 a = dim1 mel \<or> dim0 a = 1" "dim1 a = length tx \<or> dim1 a = 1"
  shows "\<exists>st1. step_alignment mi i tx mel al st = Inr st1 \<and> shape_inv n mi mt nm mc True uc st1"
proof -
  obtain A where A: "alignments_padded st = Some A" "length A = n" "\<forall>x\<in>set A. length x = mt"
    using inv unfolding shape_inv_def by auto
  have ai: "length (A ! i) = mt" using A i by simp
  obtain m' where m': "assign_block (A ! i) mi (dim1 mel) (length tx) a = Inr m'"
    using assign_block_ok[of a "dim1 mel" "A ! i" "length tx" mi] a(2,3) ai tl tx
    by (auto simp: min_def)
  have ml: "length m' = mt" using assign_block_length[OF m'] ai by simp
  let ?st1 = "st\<lparr>alignments_padded := Some (A[i := m'])\<rparr>"
  have res: "step_alignment mi i tx mel al st = Inr ?st1"
    unfolding step_alignment_def get_item_def using A i m' a(1) by simp
  have "\<forall>x\<in>set (A[i := m']). length x = mt" using A(3) ml by (intro set_update_all) auto
  then have "shape_inv n mi mt nm mc True uc ?st1"
    using inv A unfolding shape_inv_def by simp
  then show ?thesis using res by blast
qed

lemma step_ctc_ok:
  assumes inv: "shape_inv n mi mt nm mc ua True st" and i: "i < n"
    and c: "length (the c) \<le> mc"
  shows "\<exists>st1. step_ctc i c st = Inr st1 \<and> shape_inv n mi mt nm mc ua True st1"
proof -
  obtain C l where C: "ctc_text_padded st = Some C" "ctc_text_lengths st = Some l"
      "length C = n" "length l = n" "\<forall>x\<in>set C. length x = mc"
    using inv unfolding shape_inv_def by auto
  have ci: "length (C ! i) = mc" using C i by simp
  obtain r where r: "assign_prefix (C ! i) (length (the c)) (the c) = Inr r"
    using assign_prefix_fits[of "the c" "C ! i"] c ci by auto
  have rl: "length r = mc" using assign_prefix_length[OF r] ci by simp
  let ?st1 = "st\<lparr>ctc_text_lengths := Some (l[i := length (the c)]),
                  ctc_text_padded := Some (C[i := r])\<rparr>"
  have res: "step_ctc i c st = Inr ?st1"
    unfolding step_ctc_def get_item_def set_item_def using C i r by (simp add: Let_def)
  have "\<forall>x\<in>set (C[i := r]). length x = mc" using C(5) rl by (intro set_update_all) auto
  then have "shape_inv n mi mt nm mc ua True ?st1"
    using inv C unfolding shape_inv_def by simp
  then show ?thesis using res by blast
qed


lemma collate_step_ok:
  assumes inv: "shape_inv n mi mt nm mc ua uc st" and i: "i < n" and idx: "idx < length batch"
    and fits: "batch_fits mi mt nm mc ua uc batch"
  shows "\<exists>st'. collate_step ua uc mt mi batch i idx st = Inr st' \<and> shape_inv n mi mt nm mc ua uc st'"
proof -
  obtain sq mel al c where b: "batch ! idx = (sq, mel, al, c)" by (cases "batch ! idx")
  have mem: "(sq, mel, al, c) \<in> set batch" using idx b by (metis nth_mem)
  have f: "length sq \<le> mi" "dim1 mel \<le> mt" "dim0 mel = nm \<or> dim0 mel = 1"
    "uc \<longrightarrow> length (the c) \<le> mc"
    using fits mem unfolding batch_fits_def symbol_len_def mel_time_def example_ok_def by fastforce+
  have fa: "ua \<longrightarrow> (\<exists>a. al = Some a \<and> (dim0 a = dim1 mel \<or> dim0 a = 1) \<and> (dim1 a = length sq \<or> dim1 a = 1))"
    using fits mem unfolding batch_fits_def example_ok_def by (fastforce split: option.splits)
  obtain st1 where s1: "step_main mt i sq mel st = Inr st1" and i1: "shape_inv n mi mt nm mc ua uc st1"
    using step_main_ok[OF inv i f(1,2,3)] by blast
  obtain st2 where s2: "(if ua then step_alignment mi i sq mel al st1 else Inr st1) = Inr st2"
    and i2: "shape_inv n mi mt nm mc ua uc st2"
  proof (cases ua)
    case True
    then obtain a where a: "al = Some a" "dim0 a = dim1 mel \<or> dim0 a = 1" "dim1 a = length sq \<or> dim1 a = 1"
      using fa by blast
    have "shape_inv n mi mt nm mc True uc st1" using i1 True by simp
    from step_alignment_ok[OF this i f(1,2) a] True that show ?thesis by auto
  next
    case False
    then show ?thesis using that i1 by simp
  qed
  obtain st3 where s3: "(if uc then step_ctc i c st2 else Inr st2) = Inr st3"
    and i3: "shape_inv n mi mt nm mc ua uc st3"
  proof (cases uc)
    case True
    have "shape_inv n mi mt nm mc ua True st2" using i2 True by simp
    from step_ctc_ok[OF this i] f(4) True that show ?thesis by auto
  next
    case False
    then show ?thesis using that i2 by simp
  qed
  have "collate_step ua uc mt mi batch i idx st = Inr st3"
    unfolding collate_step_def get_item_def using idx b s1 s2 s3 by simp
  then show ?thesis using i3 by blast
qed

lemma collate_loop_ok:
  assumes "shape_inv n mi mt nm mc ua uc st" and "\<forall>(i, idx)\<in>set ps. i < n \<and> idx < length batch"
    and "batch_fits mi mt nm mc ua uc batch"
  shows "\<exists>st'. collate_loop ua uc mt mi batch ps st = Inr st'"
  using assms
proof (induction ps arbitrary: st)
  case Nil
  then show ?case by simp
next
  case (Cons p ps)
  obtain i idx where p: "p = (i, idx)" by (cases p)
  have r: "i < n" "idx < length batch" using Cons.prems(2) p by auto
  obtain st1 where s1: "collate_step ua uc mt mi batch i idx st = Inr st1"
    and i1: "shape_inv n mi mt nm mc ua uc st1"
    using collate_step_ok[OF Cons.prems(1) r Cons.prems(3)] by blast
  have "\<forall>(i, idx)\<in>set ps. i < n \<and> idx < length batch" using Cons.prems(2) by simp
  from Cons.IH[OF i1 this Cons.prems(3)] s1 p show ?case by simp
qed

lemma py_max_ok: "xs \<noteq> [] \<Longrightarrow> \<exists>m. py_max xs = Inr m"
  unfolding py_max_def by (cases xs) auto

lemma allocate_ok:
  assumes "batch \<noteq> []"
  shows "\<exists>st0 mc. allocate ua uc batch mi mt nm = Inr st0 \<and>
           shape_inv (length batch) mi mt nm mc ua uc st0 \<and>
           (\<not> ua \<longrightarrow> alignments_padded st0 = None) \<and>
           (uc \<longrightarrow> (\<forall>e\<in>set batch. length (the (snd (snd (snd e)))) \<le> mc))"
proof (cases uc)
  case True
  let ?ls = "map (\<lambda>x. length (the (snd (snd (snd x))))) batch"
  obtain mc where mc: "py_max ?ls = Inr mc" using py_max_ok[of ?ls] assms by auto
  have le: "\<forall>e\<in>set batch. length (the (snd (snd (snd e)))) \<le> mc"
    using py_max_ge[OF mc] by auto
  have "shape_inv (length batch) mi mt nm mc ua uc
          \<lparr>text_padded = replicate (length batch) (replicate mi 0),
           mel_padded = replicate (length batch) (replicate nm (replicate mt 0)),
           gate_padded = replicate (length batch) (replicate mt 0),
           alignments_padded =
             (if ua then Some (replicate (length batch) (replicate mt (replicate mi 0))) else None),
           ctc_text_padded = Some (replicate (length batch) (replicate mc 0)),
           ctc_text_lengths = Some (replicate (length batch) 0),
           output_lengths = replicate (length batch) 0\<rparr>"
    unfolding shape_inv_def by simp
  then show ?thesis using True mc le unfolding allocate_def by (auto simp: Let_def)
next
  case False
  have "shape_inv (length batch) mi mt nm 0 ua uc
          \<lparr>text_padded = replicate (length batch) (replicate mi 0),
           mel_padded = replicate (length batch) (replicate nm (replicate mt 0)),
           gate_padded = replicate (length batch) (replicate mt 0),
           alignments_padded =
             (if ua then Some (replicate (length batch) (replicate mt (replicate mi 0))) else None),
           ctc_text_padded = None, ctc_text_lengths = None,
           output_lengths = replicate (length batch) 0\<rparr>"
    using False unfolding shape_inv_def by simp
  then show ?thesis using False unfolding allocate_def by (auto simp: Let_def)
qed

lemma collate_nonempty:
  assumes ne: "batch \<noteq> []"
    and ok: "sort_desc_ok (map symbol_len batch) (srt (map symbol_len batch))"
  obtains vals ids mi mt st0 mc where
    "srt (map symbol_len batch) = (vals, ids)"
    and "first_item vals = Inr mi" and "py_max (map mel_time batch) = Inr mt"
    and "first_item batch = Inr (hd batch)"
    and "shape_inv (length batch) mi mt (dim0 (fst (snd (hd batch)))) mc
           (\<not> list_ex (\<lambda>elem. fst (snd (snd elem)) = None) batch)
           (\<not> list_ex (\<lambda>elem. snd (snd (snd elem)) = None) batch) st0"
    and "list_ex (\<lambda>elem. fst (snd (snd elem)) = None) batch \<longrightarrow> alignments_padded st0 = None"
    and "\<forall>(i, idx)\<in>set (zip [0..<length ids] ids). i < length batch \<and> idx < length batch"
    and "\<forall>e\<in>set batch. symbol_len e \<le> mi \<and> mel_time e \<le> mt \<and>
           (\<not> list_ex (\<lambda>elem. snd (snd (snd elem)) = None) batch
              \<longrightarrow> length (the (snd (snd (snd e)))) \<le> mc)"
    and "collate srt batch =
           (case collate_loop (\<not> list_ex (\<lambda>elem. fst (snd (snd elem)) = None) batch)
                   (\<not> list_ex (\<lambda>elem. snd (snd (snd elem)) = None) batch) mt mi batch
                   (zip [0..<length ids] ids) st0 of
              Inl e \<Rightarrow> Inl e
            | Inr st \<Rightarrow>
                Inr (\<lparr>inp_text = text_padded st, inp_mels = mel_padded st, inp_gate = gate_padded st,
                      text_len = vals, mel_len = output_lengths st\<rparr>,
                     alignments_padded st,
                     (if \<not> list_ex (\<lambda>elem. snd (snd (snd elem)) = None) batch then
                        Some \<lparr>ctc_text = the (ctc_text_padded st), ctc_length = the (ctc_text_lengths st)\<rparr>
                      else None)))"
proof -
  let ?ua = "\<not> list_ex (\<lambda>elem. fst (snd (snd elem)) = None) batch"
  let ?uc = "\<not> list_ex (\<lambda>elem. snd (snd (snd elem)) = None) batch"
  have e1: "symbol_len = (\<lambda>x. length (fst x))" and e2: "mel_time = (\<lambda>x. dim1 (fst (snd x)))"
    by (auto simp: symbol_len_def mel_time_def)
  obtain vals ids where s: "srt (map symbol_len batch) = (vals, ids)"
    by (cases "srt (map symbol_len batch)")
  have ok': "sort_desc_ok (map symbol_len batch) (vals, ids)" using ok s by simp
  note perm = sort_desc_ok_perm[OF ok']
  have lv: "length vals = length batch" and li: "length ids = length batch" using perm by simp_all
  have vne: "vals \<noteq> []" using lv ne by auto
  then obtain mi where mi: "first_item vals = Inr mi" "mi = vals ! 0"
    unfolding first_item_def by (cases vals) auto
  obtain mt where mt: "py_max (map mel_time batch) = Inr mt"
    using py_max_ok[of "map mel_time batch"] ne by auto
  have b0: "first_item batch = Inr (hd batch)" using ne unfolding first_item_def by (cases batch) auto
  obtain st0 mc where al: "allocate ?ua ?uc batch mi mt (dim0 (fst (snd (hd batch)))) = Inr st0 \<and>
      shape_inv (length batch) mi mt (dim0 (fst (snd (hd batch)))) mc ?ua ?uc st0 \<and>
      (\<not> ?ua \<longrightarrow> alignments_padded st0 = None) \<and>
      (?uc \<longrightarrow> (\<forall>e\<in>set batch. length (the (snd (snd (snd e)))) \<le> mc))"
    using allocate_ok[OF ne, of ?ua ?uc mi mt "dim0 (fst (snd (hd batch)))"] by (elim exE) (rule that)
  note st0 = al[THEN conjunct1]
  note inv = al[THEN conjunct2, THEN conjunct1]
  note an = al[THEN conjunct2, THEN conjunct2, THEN conjunct1]
  note cl = al[THEN conjunct2, THEN conjunct2, THEN conjunct2]
  have sym: "symbol_len e \<le> mi" if em: "e \<in> set batch" for e
  proof -
    obtain k where k: "k < length batch" "batch ! k = e" using em by (auto simp: in_set_conv_nth)
    then have "k \<in> set ids" using perm(4) by simp
    then obtain i where i: "i < length ids" "ids ! i = k" by (auto simp: in_set_conv_nth)
    have "vals = map (\<lambda>i. map symbol_len batch ! i) ids" using ok' unfolding sort_desc_ok_def by auto
    then have "vals ! i = symbol_len e" using i k li by simp
    moreover have "vals ! i \<le> vals ! 0" using sort_desc_ok_le_first[OF ok'] i li lv by simp
    ultimately show ?thesis using mi by simp
  qed
  have mel: "mel_time e \<le> mt" if "e \<in> set batch" for e
    using py_max_ge[OF mt] that by auto
  have fits: "\<forall>e\<in>set batch. symbol_len e \<le> mi \<and> mel_time e \<le> mt \<and>
           (?uc \<longrightarrow> length (the (snd (snd (snd e)))) \<le> mc)"
    using sym mel cl by blast
  have rng: "\<forall>(i, idx)\<in>set (zip [0..<length ids] ids). i < length batch \<and> idx < length batch"
  proof -
    have "i < length batch \<and> idx < length batch" if z: "(i, idx) \<in> set (zip [0..<length ids] ids)" for i idx
    proof -
      have "i \<in> set [0..<length ids]" "idx \<in> set ids" using z by (auto dest: set_zip_leftD set_zip_rightD)
      then show ?thesis using perm(4) li by simp
    qed
    then show ?thesis by blast
  qed
  have c: "collate srt batch =
           (case collate_loop ?ua ?uc mt mi batch (zip [0..<length ids] ids) st0 of
              Inl e \<Rightarrow> Inl e
            | Inr st \<Rightarrow>
                Inr (\<lparr>inp_text = text_padded st, inp_mels = mel_padded st, inp_gate = gate_padded st,
                      text_len = vals, mel_len = output_lengths st\<rparr>,
                     alignments_padded st,
                     (if ?uc then
                        Some \<lparr>ctc_text = the (ctc_text_padded st), ctc_length = the (ctc_text_lengths st)\<rparr>
                      else None)))"
    unfolding collate_def using s mi(1) mt b0 st0 unfolding e1 e2 by (simp add: Let_def)
  have an': "list_ex (\<lambda>elem. fst (snd (snd elem)) = None) batch \<longrightarrow> alignments_padded st0 = None"
    using an by simp
  show ?thesis by (rule that[OF s mi(1) mt b0 inv an' rng fits c])
qed

lemma collate_succeeds:
  assumes c: "collatable batch"
    and ok: "sort_desc_ok (map symbol_len batch) (srt (map symbol_len batch))"
  shows "\<exists>out. collate srt batch = Inr out"
proof -
  let ?ua = "\<not> list_ex (\<lambda>elem. fst (snd (snd elem)) = None) batch"
  let ?uc = "\<not> list_ex (\<lambda>elem. snd (snd (snd elem)) = None) batch"
  obtain b0 rest where b: "batch = b0 # rest" using c unfolding collatable_def by (cases batch) auto
  have ne: "batch \<noteq> []" using b by simp
  have exs: "\<forall>e\<in>set batch. example_ok (dim0 (fst (snd (hd batch)))) ?ua e"
    using c b unfolding collatable_def by (simp add: list_all_iff)
  obtain vals ids mi mt st0 mc where
    "srt (map symbol_len batch) = (vals, ids)"
    and "first_item vals = Inr mi" and "py_max (map mel_time batch) = Inr mt"
    and "first_item batch = Inr (hd batch)"
    and inv: "shape_inv (length batch) mi mt (dim0 (fst (snd (hd batch)))) mc ?ua ?uc st0"
    and "list_ex (\<lambda>elem. fst (snd (snd elem)) = None) batch \<longrightarrow> alignments_padded st0 = None"
    and rng: "\<forall>(i, idx)\<in>set (zip [0..<length ids] ids). i < length batch \<and> idx < length batch"
    and f: "\<forall>e\<in>set batch. symbol_len e \<le> mi \<and> mel_time e \<le> mt \<and>
           (?uc \<longrightarrow> length (the (snd (snd (snd e)))) \<le> mc)"
    and col: "collate srt batch =
           (case collate_loop ?ua ?uc mt mi batch (zip [0..<length ids] ids) st0 of
              Inl e \<Rightarrow> Inl e
            | Inr st \<Rightarrow>
                Inr (\<lparr>inp_text = text_padded st, inp_mels = mel_padded st, inp_gate = gate_padded st,
                      text_len = vals, mel_len = output_lengths st\<rparr>,
                     alignments_padded st,
                     (if ?uc then
                        Some \<lparr>ctc_text = the (ctc_text_padded st), ctc_length = the (ctc_text_lengths st)\<rparr>
                      else None)))"
    by (rule collate_nonempty[of batch srt, OF ne ok])
  have fits: "batch_fits mi mt (dim0 (fst (snd (hd batch)))) mc ?ua ?uc batch"
    unfolding batch_fits_def using f exs by blast
  obtain st where st: "collate_loop ?ua ?uc mt mi batch (zip [0..<length ids] ids) st0 = Inr st"
    using collate_loop_ok[OF inv rng fits] by blast
  show ?thesis using col st by simp
qed

subsection \<open>Shapes and exceptions\<close>

lemma step_main_shape:
  assumes "shape_inv n mi mt nm mc ua uc st" and "step_main mt i sq mel st = Inr st1"
  shows "shape_inv n mi mt nm mc ua uc st1 \<and> alignments_padded st1 = alignments_padded st"
proof -
  have l: "i < length (text_padded st)" "i < length (mel_padded st)"
    using assms(2) unfolding step_main_def get_item_def set_item_def
    by (auto simp: Let_def split: sum.splits if_splits)
  obtain r m' where r: "assign_prefix (text_padded st ! i) (length sq) sq = Inr r"
    and m': "assign_block (mel_padded st ! i) mt (length (mel_padded st ! i)) (dim1 mel) mel = Inr m'"
    and st1: "st1 = st\<lparr>output_lengths := (output_lengths st)[i := dim1 mel],
                  text_padded := (text_padded st)[i := r],
                  mel_padded := (mel_padded st)[i := m'],
                  gate_padded := (gate_padded st)[i := fill_from (gate_padded st ! i) (int (dim1 mel) - 1) 1]\<rparr>"
    using assms(2) unfolding step_main_def get_item_def set_item_def
    by (auto simp: Let_def split: sum.splits if_splits)
  have "length r = mi" using assign_prefix_length[OF r] assms(1) l unfolding shape_inv_def by simp
  then have t: "\<forall>x\<in>set ((text_padded st)[i := r]). length x = mi"
    using assms(1) unfolding shape_inv_def by (intro set_update_all) auto
  have "length m' = nm" using assign_block_length[OF m'] assms(1) l unfolding shape_inv_def by simp
  then have m: "\<forall>x\<in>set ((mel_padded st)[i := m']). length x = nm"
    using assms(1) unfolding shape_inv_def by (intro set_update_all) auto
  show ?thesis using assms(1) t m unfolding shape_inv_def st1 by simp
qed

lemma step_alignment_shape:
  assumes "shape_inv n mi mt nm mc True uc st" and "step_alignment mi i sq mel al st = Inr st1"
  shows "shape_inv n mi mt nm mc True uc st1"
proof -
  obtain A where A: "alignments_padded st = Some A" "length A = n" "\<forall>x\<in>set A. length x = mt"
    using assms(1) unfolding shape_inv_def by auto
  have i: "i < length A"
    using assms(2) A unfolding step_alignment_def get_item_def by (auto split: if_splits)
  obtain m' where m': "assign_block (A ! i) mi (dim1 mel) (length sq) (the al) = Inr m'"
    and st1: "st1 = st\<lparr>alignments_padded := Some (A[i := m'])\<rparr>"
    using assms(2) A i unfolding step_alignment_def get_item_def by (auto split: sum.splits)
  have "length m' = mt" using assign_block_length[OF m'] A i by simp
  then have "\<forall>x\<in>set (A[i := m']). length x = mt" using A(3) by (intro set_update_all) auto
  then show ?thesis using assms(1) A unfolding shape_inv_def st1 by simp
qed

lemma step_ctc_shape:
  assumes "shape_inv n mi mt nm mc ua True st" and "step_ctc i c st = Inr st1"
  shows "shape_inv n mi mt nm mc ua True st1 \<and> alignments_padded st1 = alignments_padded st"
proof -
  obtain C l where C: "ctc_text_padded st = Some C" "ctc_text_lengths st = Some l"
      "length C = n" "length l = n" "\<forall>x\<in>set C. length x = mc"
    using assms(1) unfolding shape_inv_def by auto
  have i: "i < n"
    using assms(2) C unfolding step_ctc_def get_item_def set_item_def
    by (auto simp: Let_def split: if_splits)
  obtain r where r: "assign_prefix (C ! i) (length (the c)) (the c) = Inr r"
    and st1: "st1 = st\<lparr>ctc_text_lengths := Some (l[i := length (the c)]),
                  ctc_text_padded := Some (C[i := r])\<rparr>"
    using assms(2) C i unfolding step_ctc_def get_item_def set_item_def
    by (auto simp: Let_def split: sum.splits)
  have "length r = mc" using assign_prefix_length[OF r] C i by simp
  then have "\<forall>x\<in>set (C[i := r]). length x = mc" using C(5) by (intro set_update_all) auto
  then show ?thesis using assms(1) C unfolding shape_inv_def st1 by simp
qed

lemma collate_step_shape:
  assumes inv: "shape_inv n mi mt nm mc ua uc st"
    and s: "collate_step ua uc mt mi batch i idx st = Inr st'"
  shows "shape_inv n mi mt nm mc ua uc st' \<and> (\<not> ua \<longrightarrow> alignments_padded st' = alignments_padded st)"
proof -
  have idx: "idx < length batch"
    using s unfolding collate_step_def get_item_def by (auto split: if_splits)
  obtain sq mel al c where b: "batch ! idx = (sq, mel, al, c)" by (cases "batch ! idx")
  obtain st1 where s1: "step_main mt i sq mel st = Inr st1"
    using s idx b unfolding collate_step_def get_item_def by (auto split: sum.splits)
  obtain st2 where s2: "(if ua then step_alignment mi i sq mel al st1 else Inr st1) = Inr st2"
    using s idx b s1 unfolding collate_step_def get_item_def by (auto split: sum.splits)
  have s3: "(if uc then step_ctc i c st2 else Inr st2) = Inr st'"
    using s idx b s1 s2 unfolding collate_step_def get_item_def by simp
  note k1 = step_main_shape[OF inv s1]
  have k2: "shape_inv n mi mt nm mc ua uc st2 \<and> (\<not> ua \<longrightarrow> st2 = st1)"
    using s2 k1 step_alignment_shape by (cases ua) auto
  have k3: "shape_inv n mi mt nm mc ua uc st' \<and> alignments_padded st' = alignments_padded st2"
    using s3 k2 step_ctc_shape by (cases uc) auto
  show ?thesis using k1 k2 k3 by auto
qed

lemma collate_loop_shape:
  assumes "shape_inv n mi mt nm mc ua uc st" and "collate_loop ua uc mt mi batch ps st = Inr st'"
  shows "shape_inv n mi mt nm mc ua uc st' \<and> (\<not> ua \<longrightarrow> alignments_padded st' = alignments_padded st)"
  using assms
proof (induction ps arbitrary: st)
  case Nil
  then show ?case by simp
next
  case (Cons p ps)
  obtain i idx where p: "p = (i, idx)" by (cases p)
  obtain st1 where s1: "collate_step ua uc mt mi batch i idx st = Inr st1"
    and l: "collate_loop ua uc mt mi batch ps st1 = Inr st'"
    using Cons.prems(2) p by (auto split: sum.splits)
  note k = collate_step_shape[OF Cons.prems(1) s1]
  from Cons.IH[of st1] k l show ?case by auto
qed

lemma assign_prefix_error: "assign_prefix row n src = Inl e \<Longrightarrow> e = RuntimeError"
  unfolding assign_prefix_def by (auto simp: Let_def split: if_splits)

lemma assign_block_error: "assign_block m ncols r c src = Inl e \<Longrightarrow> e = RuntimeError"
  unfolding assign_block_def by (auto simp: Let_def split: if_splits)

lemma step_main_error:
  assumes "shape_inv n mi mt nm mc ua uc st" and "i < n" and "step_main mt i sq mel st = Inl e"
  shows "e = RuntimeError"
proof -
  have l: "i < length (output_lengths st)" "i < length (text_padded st)" "i < length (mel_padded st)"
    "i < length (gate_padded st)"
    using assms(1,2) unfolding shape_inv_def by simp_all
  show ?thesis
    using assms(3) l assign_prefix_error assign_block_error
    unfolding step_main_def get_item_def set_item_def
    by (auto simp: Let_def split: sum.splits)
qed

lemma step_alignment_error:
  assumes "shape_inv n mi mt nm mc True uc st" and "i < n"
    and "step_alignment mi i sq mel al st = Inl e"
  shows "e = RuntimeError"
proof -
  obtain A where A: "alignments_padded st = Some A" "length A = n"
    using assms(1) unfolding shape_inv_def by auto
  show ?thesis
    using assms(2,3) A assign_block_error unfolding step_alignment_def get_item_def
    by (auto split: sum.splits)
qed

lemma step_ctc_error:
  assumes "shape_inv n mi mt nm mc ua True st" and "i < n" and "step_ctc i c st = Inl e"
  shows "e = RuntimeError"
proof -
  obtain C l where C: "ctc_text_padded st = Some C" "ctc_text_lengths st = Some l"
      "length C = n" "length l = n"
    using assms(1) unfolding shape_inv_def by auto
  show ?thesis
    using assms(2,3) C assign_prefix_error unfolding step_ctc_def get_item_def set_item_def
    by (auto simp: Let_def split: sum.splits)
qed

lemma collate_step_error:
  assumes inv: "shape_inv n mi mt nm mc ua uc st" and i: "i < n" and idx: "idx < length batch"
    and s: "collate_step ua uc mt mi batch i idx st = Inl e"
  shows "e = RuntimeError"
proof -
  obtain sq mel al c where b: "batch ! idx = (sq, mel, al, c)" by (cases "batch ! idx")
  show ?thesis
  proof (cases "step_main mt i sq mel st")
    case (Inl e1)
    then have "e = e1" using s idx b unfolding collate_step_def get_item_def by simp
    then show ?thesis using step_main_error[OF inv i Inl] by simp
  next
    case (Inr st1)
    note k1 = step_main_shape[OF inv Inr]
    show ?thesis
    proof (cases "if ua then step_alignment mi i sq mel al st1 else Inr st1")
      case (Inl e2)
      then have ua: ua and a: "step_alignment mi i sq mel al st1 = Inl e2" by (auto split: if_splits)
      have "e = e2" using s idx b Inr Inl unfolding collate_step_def get_item_def by simp
      then show ?thesis using step_alignment_error[OF _ i a] k1 ua by auto
    next
      case st2: (Inr st2)
      have k2: "shape_inv n mi mt nm mc ua uc st2"
        using st2 k1 step_alignment_shape by (cases ua) auto
      have c: "uc" "step_ctc i c st2 = Inl e"
        using s idx b Inr st2 unfolding collate_step_def get_item_def by (auto split: if_splits)
      then show ?thesis using step_ctc_error[OF _ i c(2)] k2 by auto
    qed
  qed
qed

lemma collate_loop_error:
  assumes "shape_inv n mi mt nm mc ua uc st" and "\<forall>(i, idx)\<in>set ps. i < n \<and> idx < length batch"
    and "collate_loop ua uc mt mi batch ps st = Inl e"
  shows "e = RuntimeError"
  using assms
proof (induction ps arbitrary: st)
  case Nil
  then show ?case by simp
next
  case (Cons p ps)
  obtain i idx where p: "p = (i, idx)" by (cases p)
  have r: "i < n" "idx < length batch" using Cons.prems(2) p by auto
  have rest: "\<forall>(i, idx)\<in>set ps. i < n \<and> idx < length batch" using Cons.prems(2) by simp
  show ?case
  proof (cases "collate_step ua uc mt mi batch i idx st")
    case (Inl e1)
    then have "e = e1" using Cons.prems(3) p by simp
    then show ?thesis using collate_step_error[OF Cons.prems(1) r Inl] by simp
  next
    case (Inr st1)
    have l: "collate_loop ua uc mt mi batch ps st1 = Inl e" using Cons.prems(3) p Inr by simp
    from Cons.IH[OF _ rest l] collate_step_shape[OF Cons.prems(1) Inr] show ?thesis by simp
  qed
qed

subsection \<open>Which batches are collated\<close>

lemma assign_block_needs:
  assumes "assign_block m ncols r c src = Inr m'"
  shows "(dim0 src = min r (length m) \<or> dim0 src = 1) \<and> (dim1 src = min c ncols \<or> dim1 src = 1)"
  using assms unfolding assign_block_def by (auto simp: Let_def split: if_splits)

lemma collate_step_needs:
  assumes inv: "shape_inv n mi mt nm mc ua uc st" and i: "i < n"
    and s: "collate_step ua uc mt mi batch i idx st = Inr st'"
    and sz: "symbol_len (batch ! idx) \<le> mi" "mel_time (batch ! idx) \<le> mt"
    and al: "ua \<longrightarrow> fst (snd (snd (batch ! idx))) \<noteq> None"
  shows "example_ok nm ua (batch ! idx)"
proof -
  have idx: "idx < length batch"
    using s unfolding collate_step_def get_item_def by (auto split: if_splits)
  obtain sq mel a c where b: "batch ! idx = (sq, mel, a, c)" by (cases "batch ! idx")
  obtain st1 where s1: "step_main mt i sq mel st = Inr st1"
    using s idx b unfolding collate_step_def get_item_def by (auto split: sum.splits)
  obtain st2 where s2: "(if ua then step_alignment mi i sq mel a st1 else Inr st1) = Inr st2"
    using s idx b s1 unfolding collate_step_def get_item_def by (auto split: sum.splits)
  have l: "i < length (mel_padded st)" "length (mel_padded st ! i) = nm"
    using inv i unfolding shape_inv_def by simp_all
  obtain m' where "assign_block (mel_padded st ! i) mt (length (mel_padded st ! i)) (dim1 mel) mel = Inr m'"
    using s1 unfolding step_main_def get_item_def set_item_def
    by (auto simp: Let_def split: sum.splits if_splits)
  then have ch: "dim0 mel = nm \<or> dim0 mel = 1" using assign_block_needs l by fastforce
  have alg: "\<exists>x. a = Some x \<and> (dim0 x = dim1 mel \<or> dim0 x = 1) \<and> (dim1 x = length sq \<or> dim1 x = 1)"
    if ua: ua
  proof -
    obtain x where x: "a = Some x" using al ua b by auto
    have inv1: "shape_inv n mi mt nm mc True uc st1" using step_main_shape[OF inv s1] ua by simp
    then obtain A where A: "alignments_padded st1 = Some A" "length A = n" "\<forall>y\<in>set A. length y = mt"
      unfolding shape_inv_def by auto
    have ai: "length (A ! i) = mt" using A i by simp
    have sa: "step_alignment mi i sq mel a st1 = Inr st2" using s2 ua by simp
    obtain m'' where "assign_block (A ! i) mi (dim1 mel) (length sq) x = Inr m''"
      using sa A i x unfolding step_alignment_def get_item_def by (auto split: sum.splits)
    from assign_block_needs[OF this] ai sz b x show ?thesis
      unfolding symbol_len_def mel_time_def by (auto simp: min_def)
  qed
  show ?thesis unfolding example_ok_def b using ch alg by auto
qed

lemma collate_loop_needs:
  assumes "shape_inv n mi mt nm mc ua uc st" and "collate_loop ua uc mt mi batch ps st = Inr st'"
    and "\<forall>(i, idx)\<in>set ps. i < n"
    and "\<forall>e\<in>set batch. symbol_len e \<le> mi \<and> mel_time e \<le> mt \<and> (ua \<longrightarrow> fst (snd (snd e)) \<noteq> None)"
  shows "\<forall>(i, idx)\<in>set ps. idx < length batch \<and> example_ok nm ua (batch ! idx)"
  using assms(1,2,3)
proof (induction ps arbitrary: st)
  case Nil
  then show ?case by simp
next
  case (Cons p ps)
  obtain i idx where p: "p = (i, idx)" by (cases p)
  obtain st1 where s1: "collate_step ua uc mt mi batch i idx st = Inr st1"
    and l: "collate_loop ua uc mt mi batch ps st1 = Inr st'"
    using Cons.prems(2) p by (auto split: sum.splits)
  have i: "i < n" and rest: "\<forall>(i, idx)\<in>set ps. i < n" using Cons.prems(3) p by auto
  have idx: "idx < length batch"
    using s1 unfolding collate_step_def get_item_def by (auto split: if_splits)
  then have mem: "batch ! idx \<in> set batch" by simp
  have "example_ok nm ua (batch ! idx)"
    using collate_step_needs[OF Cons.prems(1) i s1] assms(4) mem by blast
  moreover have "\<forall>(i, idx)\<in>set ps. idx < length batch \<and> example_ok nm ua (batch ! idx)"
    using Cons.IH[OF _ l rest] collate_step_shape[OF Cons.prems(1) s1] by blast
  ultimately show ?case using p idx by simp
qed

lemma collate_returns_iff:
  assumes ok: "sort_desc_ok (map symbol_len batch) (srt (map symbol_len batch))"
  shows "(\<exists>out. collate srt batch = Inr out) \<longleftrightarrow> collatable batch"
proof
  assume "collatable batch"
  then show "\<exists>out. collate srt batch = Inr out" using collate_succeeds[of batch srt] ok by blast
next
  assume r: "\<exists>out. collate srt batch = Inr out"
  let ?ua = "\<not> list_ex (\<lambda>elem. fst (snd (snd elem)) = None) batch"
  let ?uc = "\<not> list_ex (\<lambda>elem. snd (snd (snd elem)) = None) batch"
  have ne: "batch \<noteq> []"
  proof
    assume e: "batch = []"
    obtain vals ids where s: "srt [] = (vals, ids)" by (cases "srt []")
    have "fst (srt []) = []" using ok e sort_desc_ok_empty by simp
    then have "vals = []" using s by simp
    then have "collate srt batch = Inl IndexError"
      unfolding collate_def e first_item_def using s by (simp add: Let_def)
    then show False using r by simp
  qed
  obtain vals ids mi mt st0 mc where
    s: "srt (map symbol_len batch) = (vals, ids)"
    and mi: "first_item vals = Inr mi" and mt: "py_max (map mel_time batch) = Inr mt"
    and b0: "first_item batch = Inr (hd batch)"
    and inv: "shape_inv (length batch) mi mt (dim0 (fst (snd (hd batch)))) mc ?ua ?uc st0"
    and an: "list_ex (\<lambda>elem. fst (snd (snd elem)) = None) batch \<longrightarrow> alignments_padded st0 = None"
    and rng: "\<forall>(i, idx)\<in>set (zip [0..<length ids] ids). i < length batch \<and> idx < length batch"
    and f: "\<forall>e\<in>set batch. symbol_len e \<le> mi \<and> mel_time e \<le> mt \<and>
         (?uc \<longrightarrow> length (the (snd (snd (snd e)))) \<le> mc)"
    and col: "collate srt batch =
         (case collate_loop ?ua ?uc mt mi batch (zip [0..<length ids] ids) st0 of
            Inl e \<Rightarrow> Inl e
          | Inr st \<Rightarrow>
              Inr (\<lparr>inp_text = text_padded st, inp_mels = mel_padded st, inp_gate = gate_padded st,
                    text_len = vals, mel_len = output_lengths st\<rparr>,
                   alignments_padded st,
                   (if ?uc then
                      Some \<lparr>ctc_text = the (ctc_text_padded st), ctc_length = the (ctc_text_lengths st)\<rparr>
                    else None)))"
    by (rule collate_nonempty[of batch srt, OF ne ok])
  obtain st where st: "collate_loop ?ua ?uc mt mi batch (zip [0..<length ids] ids) st0 = Inr st"
    using r col by (auto split: sum.splits)
  have ok': "sort_desc_ok (map symbol_len batch) (vals, ids)" using ok s by simp
  note perm = sort_desc_ok_perm[OF ok']
  have r1: "\<forall>(i, idx)\<in>set (zip [0..<length ids] ids). i < length batch" using rng by auto
  have sz: "\<forall>e\<in>set batch. symbol_len e \<le> mi \<and> mel_time e \<le> mt \<and> (?ua \<longrightarrow> fst (snd (snd e)) \<noteq> None)"
    using f unfolding list_ex_iff by auto
  note nd = collate_loop_needs[OF inv st r1 sz]
  have "example_ok (dim0 (fst (snd (hd batch)))) ?ua e" if em: "e \<in> set batch" for e
  proof -
    obtain k where k: "k < length batch" "batch ! k = e" using em by (auto simp: in_set_conv_nth)
    then have "k \<in> set ids" using perm(4) by simp
    then obtain i where i: "i < length ids" "ids ! i = k" by (auto simp: in_set_conv_nth)
    have "[0..<length ids] ! i = i" using i by simp
    then have "(i, k) \<in> set (zip [0..<length ids] ids)" using i unfolding in_set_zip by force
    then show ?thesis using nd k by blast
  qed
  then show "collatable batch"
    using ne unfolding collatable_def by (cases batch) (auto simp: list_all_iff)
qed

subsection \<open>The claims about the collator\<close>

lemma three_examples_collated:
  "collate stable_sort_desc three_examples = Inr (three_collated, None, None)"
  by code_simp

lemma mixed_batch_collated:
  "collate stable_sort_desc mixed_batch = Inr (mixed_collated, None, None)"
  by code_simp

lemma three_examples_sort_ok:
  "sort_desc_ok (map symbol_len three_examples) (stable_sort_desc (map symbol_len three_examples))"
  by code_simp

lemma three_examples_collatable: "collatable three_examples"
  by code_simp

lemma mixed_batch_sort_ok:
  "sort_desc_ok (map symbol_len mixed_batch) (stable_sort_desc (map symbol_len mixed_batch))"
  by code_simp

lemma mixed_batch_collatable: "collatable mixed_batch"
  by code_simp


lemma assign_prefix_padded:
  assumes "assign_prefix (replicate mi 0) (length sq) sq = Inr r" and "length sq \<le> mi"
  shows "r = sq @ replicate (mi - length sq) 0"
  using assms unfolding assign_prefix_def by (auto simp: Let_def min_def split: if_splits)

text \<open>
  C5, in the form that holds of the code. In a collated batch, every example \<open>k\<close> with
  at least one mel frame has a row, and
  in that row of the gate, which has \<open>max_target_len\<close> entries, the entry \<open>j\<close> is 0
  when \<open>j \<le> L - 2\<close> and 1 when \<open>j \<ge> L - 1\<close>, where \<open>L\<close> is the number of mel
  frames of the example.
\<close>

theorem gate_trailing_ones:
  assumes "collate srt batch = Inr (inp, al, ctc)"
    and "sort_desc_ok (map symbol_len batch) (srt (map symbol_len batch))"
    and "py_max (map mel_time batch) = Inr max_target_len"
    and "k < length batch" and "1 \<le> mel_time (batch ! k)"
  shows "(\<exists>i<length batch. snd (srt (map symbol_len batch)) ! i = k) \<and>
         (\<forall>i<length batch. snd (srt (map symbol_len batch)) ! i = k \<longrightarrow>
            length (inp_gate inp ! i) = max_target_len \<and>
            (\<forall>j<max_target_len.
               inp_gate inp ! i ! j = (if j + 1 < mel_time (batch ! k) then 0 else 1)))"
proof -
  have e1: "symbol_len = (\<lambda>x. length (fst x))" and e2: "mel_time = (\<lambda>x. dim1 (fst (snd x)))"
    by (auto simp: symbol_len_def mel_time_def)
  obtain vals ids where s: "srt (map (\<lambda>x. length (fst x)) batch) = (vals, ids)"
    by (cases "srt (map (\<lambda>x. length (fst x)) batch)")
  have ok: "sort_desc_ok (map symbol_len batch) (vals, ids)" using assms(2) s unfolding e1 by simp
  have li: "length ids = length batch" using sort_desc_ok_perm(2)[OF ok] by simp
  have ids: "snd (srt (map symbol_len batch)) = ids" using s unfolding e1 by simp
  have "k \<in> set ids" using sort_desc_ok_perm(4)[OF ok] assms(4) by simp
  then have ex: "\<exists>i<length batch. ids ! i = k" using li by (auto simp: in_set_conv_nth)
  obtain mi mt where mt: "py_max (map (\<lambda>x. dim1 (fst (snd x))) batch) = Inr mt"
    and row: "\<forall>i<length ids. inp_gate inp ! i =
                 fill_from (replicate mt 0) (int (mel_time (batch ! (ids ! i))) - 1) 1"
    using collate_rows[OF assms(1) s] by blast
  have mt_eq: "mt = max_target_len" using mt assms(3) unfolding e2 by simp
  have "mel_time (batch ! k) \<in> set (map mel_time batch)" using assms(4) by simp
  then have le: "mel_time (batch ! k) \<le> max_target_len" using py_max_ge[OF assms(3)] by blast
  have "length (inp_gate inp ! i) = max_target_len \<and>
        (\<forall>j<max_target_len. inp_gate inp ! i ! j = (if j + 1 < mel_time (batch ! k) then 0 else 1))"
    if i: "i < length batch" and ik: "ids ! i = k" for i
  proof -
    have g: "inp_gate inp ! i = fill_from (replicate max_target_len 0) (int (mel_time (batch ! k)) - 1) 1"
      using row i li ik mt_eq by simp
    show ?thesis using g fill_from_nth[OF assms(5) le] by (simp add: fill_from_length)
  qed
  then show ?thesis using ex unfolding ids by blast
qed

theorem gate_trailing_ones_witness:
  "collate stable_sort_desc three_examples = Inr (three_collated, None, None) \<and>
   sort_desc_ok (map symbol_len three_examples) (stable_sort_desc (map symbol_len three_examples)) \<and>
   py_max (map mel_time three_examples) = Inr 3 \<and> mel_time (three_examples ! 2) = 2 \<and>
   snd (stable_sort_desc (map symbol_len three_examples)) ! 0 = 2 \<and>
   length (inp_gate three_collated ! 0) = 3 \<and>
   inp_gate three_collated ! 0 ! 0 = 0 \<and> inp_gate three_collated ! 0 ! 1 = 1 \<and>
   inp_gate three_collated ! 0 ! 2 = 1"
proof -
  have m: "py_max (map mel_time three_examples) = Inr 3" by code_simp
  have t: "mel_time (three_examples ! 2) = 2" by code_simp
  have p: "snd (stable_sort_desc (map symbol_len three_examples)) ! 0 = 2" by code_simp
  have k: "2 < length three_examples" "1 \<le> mel_time (three_examples ! 2)"
    "0 < length three_examples" by code_simp+
  note g = gate_trailing_ones[OF three_examples_collated three_examples_sort_ok m k(1,2),
      THEN conjunct2, rule_format, OF k(3) p]
  have "inp_gate three_collated ! 0 ! 0 = 0" "inp_gate three_collated ! 0 ! 1 = 1"
    "inp_gate three_collated ! 0 ! 2 = 1"
    using g[THEN conjunct2, rule_format, of 0] g[THEN conjunct2, rule_format, of 1]
      g[THEN conjunct2, rule_format, of 2] t by simp_all
  then show ?thesis using g three_examples_collated three_examples_sort_ok m t p by simp
qed

text \<open>
  Without the condition on the frames the pattern fails. In this batch the first example
  has no mel frame and the longest mel has two; the example is in row 0, frame 0 is not
  before \<open>L - 1 = -1\<close>, and yet the gate is 0 there: only the last frame of the row is set.
\<close>

lemma zero_frame_batch_collated:
  "collate stable_sort_desc zero_frame_batch = Inr (zero_frame_collated, None, None)"
  by code_simp

theorem gate_zero_frames_not_all_ones:
  "collate stable_sort_desc zero_frame_batch = Inr (zero_frame_collated, None, None) \<and>
   snd (stable_sort_desc (map symbol_len zero_frame_batch)) ! 0 = 0 \<and>
   mel_time (zero_frame_batch ! 0) = 0 \<and>
   py_max (map mel_time zero_frame_batch) = Inr 2 \<and>
   int (mel_time (zero_frame_batch ! 0)) - 1 \<le> int 0 \<and> (0::nat) < 2 \<and>
   inp_gate zero_frame_collated ! 0 ! 0 \<noteq> 1 \<and>
   inp_gate zero_frame_collated ! 0 = [0, 1]"
proof -
  have "snd (stable_sort_desc (map symbol_len zero_frame_batch)) ! 0 = 0"
    "mel_time (zero_frame_batch ! 0) = 0" "py_max (map mel_time zero_frame_batch) = Inr 2"
    by code_simp+
  then show ?thesis using zero_frame_batch_collated by (simp add: zero_frame_collated_def)
qed

text \<open>
  C6. The batches that are collated are exactly those that meet the shape requirements
  (non-empty, mel channels and alignment shapes that torch accepts). In every collated batch
  \<open>text_len\<close> is the list of symbol lengths sorted in descending order, and row \<open>i\<close>
  belongs to the example that the sort puts at position \<open>i\<close>: its entry of \<open>text_len\<close>
  is the symbol length of that example, its entry of \<open>mel_len\<close> is the mel time of that
  example, and its row of text is the symbols of that example padded with zeros to the
  longest length. The witness is the batch with symbol lengths 5, 3, 8.
\<close>

theorem collate_sorted_descending:
  assumes "sort_desc_ok (map symbol_len batch) (srt (map symbol_len batch))"
  shows "((\<exists>out. collate srt batch = Inr out) \<longleftrightarrow> collatable batch) \<and>
         (collate srt batch = Inr (inp, al, ctc) \<longrightarrow>
            batch \<noteq> [] \<and>
            text_len inp = rev (sort (map symbol_len batch)) \<and>
            length (inp_text inp) = length batch \<and> length (mel_len inp) = length batch \<and>
            (\<forall>i<length batch.
               snd (srt (map symbol_len batch)) ! i < length batch \<and>
               text_len inp ! i = symbol_len (batch ! (snd (srt (map symbol_len batch)) ! i)) \<and>
               mel_len inp ! i = mel_time (batch ! (snd (srt (map symbol_len batch)) ! i)) \<and>
               inp_text inp ! i =
                 fst (batch ! (snd (srt (map symbol_len batch)) ! i)) @
                 replicate (text_len inp ! 0 - text_len inp ! i) 0))"
proof -
  have e1: "symbol_len = (\<lambda>x. length (fst x))"
    by (auto simp: symbol_len_def)
  have a: "(\<exists>out. collate srt batch = Inr out) \<longleftrightarrow> collatable batch"
    using collate_returns_iff[of batch srt] assms by blast
  have b: "batch \<noteq> [] \<and>
            text_len inp = rev (sort (map symbol_len batch)) \<and>
            length (inp_text inp) = length batch \<and> length (mel_len inp) = length batch \<and>
            (\<forall>i<length batch.
               snd (srt (map symbol_len batch)) ! i < length batch \<and>
               text_len inp ! i = symbol_len (batch ! (snd (srt (map symbol_len batch)) ! i)) \<and>
               mel_len inp ! i = mel_time (batch ! (snd (srt (map symbol_len batch)) ! i)) \<and>
               inp_text inp ! i =
                 fst (batch ! (snd (srt (map symbol_len batch)) ! i)) @
                 replicate (text_len inp ! 0 - text_len inp ! i) 0)"
    if c: "collate srt batch = Inr (inp, al, ctc)"
  proof -
    obtain vals ids where s: "srt (map (\<lambda>x. length (fst x)) batch) = (vals, ids)"
      by (cases "srt (map (\<lambda>x. length (fst x)) batch)")
    have ok: "sort_desc_ok (map symbol_len batch) (vals, ids)" using assms s unfolding e1 by simp
    have li: "length ids = length batch" and lv: "length vals = length batch"
      using sort_desc_ok_perm[OF ok] by simp_all
    have ids: "snd (srt (map symbol_len batch)) = ids" using s unfolding e1 by simp
    have v: "vals = map (\<lambda>i. map symbol_len batch ! i) ids"
      using ok unfolding sort_desc_ok_def by auto
    obtain mi mt where mi: "first_item vals = Inr mi" and tl: "text_len inp = vals"
      and l: "length (inp_text inp) = length batch" "length (mel_len inp) = length batch"
      and rows: "\<forall>i<length ids. ids ! i < length batch \<and> i < length batch \<and>
              inp_gate inp ! i = fill_from (replicate mt 0) (int (mel_time (batch ! (ids ! i))) - 1) 1 \<and>
              mel_len inp ! i = mel_time (batch ! (ids ! i)) \<and>
              assign_prefix (replicate mi 0) (symbol_len (batch ! (ids ! i))) (fst (batch ! (ids ! i)))
                = Inr (inp_text inp ! i)"
      using collate_rows[OF c s] by blast
    have ne: "batch \<noteq> []" and mi0: "mi = vals ! 0" using first_item_nth[OF mi] lv by auto
    have r: "ids ! i < length batch \<and>
             vals ! i = symbol_len (batch ! (ids ! i)) \<and>
             mel_len inp ! i = mel_time (batch ! (ids ! i)) \<and>
             inp_text inp ! i = fst (batch ! (ids ! i)) @ replicate (vals ! 0 - vals ! i) 0"
      if i: "i < length batch" for i
    proof -
      have ii: "i < length ids" using i li by simp
      have k: "ids ! i < length batch" using rows ii by blast
      have vi: "vals ! i = symbol_len (batch ! (ids ! i))" using v ii k by simp
      have le: "vals ! i \<le> mi" using sort_desc_ok_le_first[OF ok] i lv mi0 by simp
      have ap: "assign_prefix (replicate mi 0) (length (fst (batch ! (ids ! i)))) (fst (batch ! (ids ! i)))
                = Inr (inp_text inp ! i)"
        using rows ii unfolding symbol_len_def by blast
      have "inp_text inp ! i = fst (batch ! (ids ! i)) @ replicate (mi - length (fst (batch ! (ids ! i)))) 0"
        using assign_prefix_padded[OF ap] le vi unfolding symbol_len_def by simp
      then show ?thesis using k vi rows ii mi0 unfolding symbol_len_def by simp
    qed
    show ?thesis using ne tl l r sort_desc_ok_vals[OF ok] unfolding ids by simp
  qed
  show ?thesis using a b by blast
qed


theorem collate_sorted_descending_witness:
  "sort_desc_ok (map symbol_len three_examples) (stable_sort_desc (map symbol_len three_examples)) \<and>
   collatable three_examples \<and> map symbol_len three_examples = [5, 3, 8] \<and>
   map mel_time three_examples = [3, 1, 2] \<and>
   snd (stable_sort_desc (map symbol_len three_examples)) = [2, 0, 1] \<and>
   collate stable_sort_desc three_examples = Inr (three_collated, None, None) \<and>
   text_len three_collated = [8, 5, 3] \<and> mel_len three_collated = [2, 3, 1] \<and>
   rev (sort (map symbol_len three_examples)) = [8, 5, 3] \<and>
   inp_text three_collated ! 1 = fst (three_examples ! 0) @ replicate 3 0"
proof -
  have l: "map symbol_len three_examples = [5, 3, 8]" "map mel_time three_examples = [3, 1, 2]"
    "snd (stable_sort_desc (map symbol_len three_examples)) = [2, 0, 1]"
    "text_len three_collated = [8, 5, 3]" "mel_len three_collated = [2, 3, 1]"
    "length three_examples = 3"
    by code_simp+
  note t = collate_sorted_descending[of three_examples stable_sort_desc three_collated None None,
      OF three_examples_sort_ok, THEN conjunct2, rule_format, OF three_examples_collated]
  have r: "rev (sort (map symbol_len three_examples)) = [8, 5, 3]"
    using t l(4) by simp
  have "inp_text three_collated ! 1 = fst (three_examples ! 0) @ replicate 3 0"
    using t[THEN conjunct2, THEN conjunct2, THEN conjunct2, THEN conjunct2, rule_format, of 1] l
    by simp
  then show ?thesis
    using three_examples_sort_ok three_examples_collatable three_examples_collated l r by simp
qed

text \<open>
  C10. On the empty list the collator fails with \<open>IndexError\<close>. On a non-empty batch
  the first sorted length, the maximum of the mel times and the first example are all
  obtained, and the only exception the collator can still raise is the shape mismatch of
  an assignment.
\<close>

theorem collate_needs_nonempty_batch:
  assumes "sort_desc_ok (map symbol_len batch) (srt (map symbol_len batch))"
  shows "(batch = [] \<longrightarrow> collate srt batch = Inl IndexError) \<and>
         (batch \<noteq> [] \<longrightarrow>
            (\<exists>max_input_len max_target_len.
               first_item (fst (srt (map symbol_len batch))) = Inr max_input_len \<and>
               py_max (map mel_time batch) = Inr max_target_len \<and>
               first_item batch = Inr (hd batch)) \<and>
            (\<forall>e. collate srt batch = Inl e \<longrightarrow> e = RuntimeError))"
proof -
  have a: "collate srt batch = Inl IndexError" if e: "batch = []"
  proof -
    obtain vals ids where s: "srt [] = (vals, ids)" by (cases "srt []")
    have "fst (srt []) = []" using assms e sort_desc_ok_empty by simp
    then have "vals = []" using s by simp
    then show ?thesis unfolding collate_def e first_item_def using s
      by (simp add: Let_def)
  qed
  have b: "(\<exists>max_input_len max_target_len.
               first_item (fst (srt (map symbol_len batch))) = Inr max_input_len \<and>
               py_max (map mel_time batch) = Inr max_target_len \<and>
               first_item batch = Inr (hd batch)) \<and>
            (\<forall>e. collate srt batch = Inl e \<longrightarrow> e = RuntimeError)" if ne: "batch \<noteq> []"
  proof -
    let ?ua = "\<not> list_ex (\<lambda>elem. fst (snd (snd elem)) = None) batch"
    let ?uc = "\<not> list_ex (\<lambda>elem. snd (snd (snd elem)) = None) batch"
    obtain vals ids mi mt st0 mc where
      s: "srt (map symbol_len batch) = (vals, ids)"
      and mi: "first_item vals = Inr mi" and mt: "py_max (map mel_time batch) = Inr mt"
      and b0: "first_item batch = Inr (hd batch)"
      and inv: "shape_inv (length batch) mi mt (dim0 (fst (snd (hd batch)))) mc ?ua ?uc st0"
      and "list_ex (\<lambda>elem. fst (snd (snd elem)) = None) batch \<longrightarrow> alignments_padded st0 = None"
      and rng: "\<forall>(i, idx)\<in>set (zip [0..<length ids] ids). i < length batch \<and> idx < length batch"
      and f: "\<forall>e\<in>set batch. symbol_len e \<le> mi \<and> mel_time e \<le> mt \<and>
           (?uc \<longrightarrow> length (the (snd (snd (snd e)))) \<le> mc)"
      and col: "collate srt batch =
           (case collate_loop ?ua ?uc mt mi batch (zip [0..<length ids] ids) st0 of
              Inl e \<Rightarrow> Inl e
            | Inr st \<Rightarrow>
                Inr (\<lparr>inp_text = text_padded st, inp_mels = mel_padded st, inp_gate = gate_padded st,
                      text_len = vals, mel_len = output_lengths st\<rparr>,
                     alignments_padded st,
                     (if ?uc then
                        Some \<lparr>ctc_text = the (ctc_text_padded st), ctc_length = the (ctc_text_lengths st)\<rparr>
                      else None)))"
      by (rule collate_nonempty[of batch srt, OF ne assms])
    have "e = RuntimeError" if c: "collate srt batch = Inl e" for e
    proof -
      have "collate_loop ?ua ?uc mt mi batch (zip [0..<length ids] ids) st0 = Inl e"
        using c col by (auto split: sum.splits)
      then show ?thesis using collate_loop_error[OF inv rng] by blast
    qed
    then show ?thesis using s mi mt b0 by auto
  qed
  show ?thesis using a b by blast
qed

lemma empty_sort_ok:
  "sort_desc_ok (map symbol_len ([] :: example list)) (stable_sort_desc (map symbol_len ([] :: example list)))"
  by code_simp

theorem collate_needs_nonempty_batch_witness:
  "sort_desc_ok (map symbol_len ([] :: example list)) (stable_sort_desc (map symbol_len ([] :: example list))) \<and>
   collate stable_sort_desc [] = Inl IndexError \<and>
   sort_desc_ok (map symbol_len three_examples) (stable_sort_desc (map symbol_len three_examples)) \<and>
   three_examples \<noteq> [] \<and>
   first_item (fst (stable_sort_desc (map symbol_len three_examples))) = Inr 8 \<and>
   py_max (map mel_time three_examples) = Inr 3 \<and>
   first_item three_examples = Inr (hd three_examples) \<and>
   collate stable_sort_desc three_examples \<noteq> Inl IndexError"
proof -
  have ne: "three_examples \<noteq> []" by (simp add: three_examples_def)
  have v: "first_item (fst (stable_sort_desc (map symbol_len three_examples))) = Inr 8"
    "py_max (map mel_time three_examples) = Inr 3" by code_simp+
  note e = collate_needs_nonempty_batch[of "[]" stable_sort_desc, OF empty_sort_ok,
      THEN conjunct1, rule_format, OF refl]
  note n = collate_needs_nonempty_batch[of three_examples stable_sort_desc,
      OF three_examples_sort_ok, THEN conjunct2, rule_format, OF ne]
  have "collate stable_sort_desc three_examples \<noteq> Inl IndexError"
    using n[THEN conjunct2, rule_format, of IndexError] by auto
  then show ?thesis using e n empty_sort_ok three_examples_sort_ok ne v by simp
qed

text \<open>
  C3, in the form that holds of the code. Mixed presence of an optional field is not
  rejected: every batch that
  meets the shape requirements is collated, the alignment output is absent exactly when
  some example lacks an alignment, and the auxiliary output is absent exactly when some
  example lacks an auxiliary sequence. The field is then left out as a whole.
\<close>

theorem mixed_presence_omits_field:
  assumes "collatable batch"
    and "sort_desc_ok (map symbol_len batch) (srt (map symbol_len batch))"
  shows "\<exists>inp al ctc. collate srt batch = Inr (inp, al, ctc) \<and>
           (al = None \<longleftrightarrow> (\<exists>e\<in>set batch. fst (snd (snd e)) = None)) \<and>
           (ctc = None \<longleftrightarrow> (\<exists>e\<in>set batch. snd (snd (snd e)) = None))"
proof -
  let ?ua = "\<not> list_ex (\<lambda>elem. fst (snd (snd elem)) = None) batch"
  let ?uc = "\<not> list_ex (\<lambda>elem. snd (snd (snd elem)) = None) batch"
  have ne: "batch \<noteq> []" using assms(1) unfolding collatable_def by (cases batch) auto
  obtain vals ids mi mt st0 mc where
    s: "srt (map symbol_len batch) = (vals, ids)"
    and mi: "first_item vals = Inr mi" and mt: "py_max (map mel_time batch) = Inr mt"
    and b0: "first_item batch = Inr (hd batch)"
    and inv: "shape_inv (length batch) mi mt (dim0 (fst (snd (hd batch)))) mc ?ua ?uc st0"
    and an: "list_ex (\<lambda>elem. fst (snd (snd elem)) = None) batch \<longrightarrow> alignments_padded st0 = None"
    and rng: "\<forall>(i, idx)\<in>set (zip [0..<length ids] ids). i < length batch \<and> idx < length batch"
    and f: "\<forall>e\<in>set batch. symbol_len e \<le> mi \<and> mel_time e \<le> mt \<and>
         (?uc \<longrightarrow> length (the (snd (snd (snd e)))) \<le> mc)"
    and col: "collate srt batch =
         (case collate_loop ?ua ?uc mt mi batch (zip [0..<length ids] ids) st0 of
            Inl e \<Rightarrow> Inl e
          | Inr st \<Rightarrow>
              Inr (\<lparr>inp_text = text_padded st, inp_mels = mel_padded st, inp_gate = gate_padded st,
                    text_len = vals, mel_len = output_lengths st\<rparr>,
                   alignments_padded st,
                   (if ?uc then
                      Some \<lparr>ctc_text = the (ctc_text_padded st), ctc_length = the (ctc_text_lengths st)\<rparr>
                    else None)))"
    by (rule collate_nonempty[of batch srt, OF ne assms(2)])
  obtain out where out: "collate srt batch = Inr out"
    using collate_succeeds[of batch srt] assms by blast
  then obtain st where st: "collate_loop ?ua ?uc mt mi batch (zip [0..<length ids] ids) st0 = Inr st"
    using col by (auto split: sum.splits)
  note sh = collate_loop_shape[OF inv st]
  have a1: "alignments_padded st = None" if "list_ex (\<lambda>elem. fst (snd (snd elem)) = None) batch"
    using sh an that by simp
  have a2: "alignments_padded st \<noteq> None" if "?ua"
    using sh that unfolding shape_inv_def by auto
  have al: "alignments_padded st = None \<longleftrightarrow> (\<exists>e\<in>set batch. fst (snd (snd e)) = None)"
    using a1 a2 unfolding list_ex_iff by blast
  have res: "collate srt batch =
      Inr (\<lparr>inp_text = text_padded st, inp_mels = mel_padded st, inp_gate = gate_padded st,
             text_len = vals, mel_len = output_lengths st\<rparr>,
           alignments_padded st,
           (if ?uc then
              Some \<lparr>ctc_text = the (ctc_text_padded st), ctc_length = the (ctc_text_lengths st)\<rparr>
            else None))"
    using col st by simp
  show ?thesis using res al unfolding list_ex_iff by auto
qed

theorem mixed_presence_omits_field_witness:
  "collatable mixed_batch \<and>
   sort_desc_ok (map symbol_len mixed_batch) (stable_sort_desc (map symbol_len mixed_batch)) \<and>
   fst (snd (snd (mixed_batch ! 0))) \<noteq> None \<and> fst (snd (snd (mixed_batch ! 1))) = None \<and>
   (\<exists>inp ctc. collate stable_sort_desc mixed_batch = Inr (inp, None, ctc))"
proof -
  have p: "fst (snd (snd (mixed_batch ! 0))) \<noteq> None" "fst (snd (snd (mixed_batch ! 1))) = None"
    by (simp_all add: mixed_batch_def)
  have "\<exists>e\<in>set mixed_batch. fst (snd (snd e)) = None" by (simp add: mixed_batch_def)
  then have "\<exists>inp ctc. collate stable_sort_desc mixed_batch = Inr (inp, None, ctc)"
    using mixed_presence_omits_field[of mixed_batch stable_sort_desc,
        OF mixed_batch_collatable mixed_batch_sort_ok] by auto
  then show ?thesis using mixed_batch_collatable mixed_batch_sort_ok p by simp
qed

text \<open>
  A batch of two examples, the first with an alignment and no auxiliary sequence, the
  second the other way round, is collated without an exception; both optional outputs
  are absent.
\<close>

theorem mixed_presence_not_rejected:
  "fst (snd (snd (mixed_batch ! 0))) = Some (np_zeros 2 2) \<and> fst (snd (snd (mixed_batch ! 1))) = None \<and>
   snd (snd (snd (mixed_batch ! 0))) = None \<and> snd (snd (snd (mixed_batch ! 1))) = Some [4] \<and>
   collate stable_sort_desc mixed_batch = Inr (mixed_collated, None, None)"
  using mixed_batch_collated by (simp add: mixed_batch_def)

end
